theory Spec2Isabelle
  imports Main
begin

section \<open>Data model\<close>

text \<open>
  The component \<open>GitHubActivityViewer\<close> of \<open>src/components/input.tsx\<close>: two
  handlers (\<open>fetchReposAndYears\<close>, \<open>fetchCommits\<close>) over React state, and the part
  of the render function that derives the chart summary.

  The interfaces \<open>Repo\<close> and \<open>CommitData\<close> are records. The field \<open>id\<close> of
  \<open>Repo\<close> is named \<open>repo_id\<close>, since \<open>id\<close> is the identity function of HOL.
\<close>

record Repo =
  repo_id :: int
  name :: string
  html_url :: string

record CommitData =
  month :: string
  commits :: nat

text \<open>
  A commit object of the API is read only through
  \<open>new Date(commit.commit.author.date)\<close>: the record keeps that Date, as its time
  value in milliseconds, \<open>None\<close> for an Invalid Date. The user profile is read only
  through \<open>new Date(userData.created_at)\<close>. The messages of the errors the runtime
  throws (\<open>TypeError\<close>, \<open>RangeError\<close>) are those of the engine; the model fixes
  one text for each.
\<close>

record Commit =
  author_date :: "int option"

record UserData =
  created_at :: "int option"

text \<open>
  What \<open>fetch\<close> gives back: the promise is rejected (with an \<open>Error\<close> carrying a
  message), or there is a response with a status and a body; \<open>res.json()\<close> on the body
  is rejected (\<open>Inl\<close>, with the message) or gives the parsed value. \<open>res.ok\<close> is
  the status being in the range 200 to 299.
\<close>

datatype 'a response = Rejected string | Response nat "string + 'a"

definition ok :: "nat \<Rightarrow> bool" where
  "ok status \<longleftrightarrow> 200 \<le> status \<and> status \<le> 299"

text \<open>
  The three URLs the component requests. The commit URL carries the repository name,
  \<open>since\<close>, \<open>until\<close> (as time values; \<open>toISOString\<close> is not modelled beyond its
  \<open>RangeError\<close>) and the page; \<open>per_page=100\<close> is constant.
\<close>

datatype request =
    GetUser string
  | GetRepos string
  | GetCommits string string int int nat

datatype log = ConsoleError string string | ConsoleWarn string

text \<open>
  The runtime is what the component reads and does not define: the clock, the \<open>Date\<close>
  library in the browser's time zone and locale, and the GitHub API.
  \<^item> \<open>clock rt n\<close> is the time value of \<open>new Date()\<close> when \<open>n\<close> requests have been
    sent so far;
  \<^item> \<open>newDate rt y m d h mi s\<close> is \<open>new Date(y, m, d, h, mi, s)\<close>, \<open>None\<close> for an
    Invalid Date;
  \<^item> \<open>monthShort rt d\<close> is \<open>d.toLocaleString("default", {month: "short"})\<close>;
  \<^item> \<open>users\<close>, \<open>userRepos\<close> and \<open>repoCommits\<close> answer the three URLs.
\<close>

record runtime =
  clock :: "nat \<Rightarrow> int"
  getFullYear :: "int \<Rightarrow> int"
  getMonth :: "int \<Rightarrow> nat"
  newDate :: "int \<Rightarrow> nat \<Rightarrow> nat \<Rightarrow> nat \<Rightarrow> nat \<Rightarrow> nat \<Rightarrow> int option"
  monthShort :: "int option \<Rightarrow> string"
  users :: "string \<Rightarrow> UserData response"
  userRepos :: "string \<Rightarrow> Repo list response"
  repoCommits :: "string \<Rightarrow> string \<Rightarrow> int \<Rightarrow> int \<Rightarrow> nat \<Rightarrow> Commit list response"

text \<open>
  The observable trace (requests sent, console lines written) is carried by every
  state; the React state of the component extends it, and so do the local variables of
  one run of \<open>fetchCommits\<close>.
\<close>

record trace =
  requests :: "request list"
  console :: "log list"

record app = trace +
  username :: string
  repos :: "Repo list"
  commitData :: "CommitData list"
  loading :: bool
  error :: string
  years :: "int list"
  selectedYear :: "int option"
  showChart :: bool

record run = trace +
  monthlyCommits :: "CommitData list"

datatype outcome = Normal | Thrown string

section \<open>fetchWithAuth\<close>

text \<open>
  \<^verbatim>\<open>try { return await fetch(url, { headers }); }
  catch (error) { console.error("Error fetching data:", error); throw error; }\<close>
  The response is the runtime's; the function records the request and, when \<open>fetch\<close>
  is rejected, the console line. The caller goes on by cases on the response, the
  rejection being the rethrown error.
\<close>

definition fetchWithAuth :: "request \<Rightarrow> 'b response \<Rightarrow> 'a trace_scheme \<Rightarrow> 'a trace_scheme" where
  "fetchWithAuth url res tr =
     (case res of
        Rejected msg \<Rightarrow>
          tr\<lparr>requests := requests tr @ [url],
             console := console tr @ [ConsoleError ''Error fetching data:'' msg]\<rparr>
      | Response status body \<Rightarrow> tr\<lparr>requests := requests tr @ [url]\<rparr>)"

section \<open>Decimal rendering of a status\<close>

text \<open>The template literals render \<open>res.status\<close> in decimal.\<close>

definition digit :: "nat \<Rightarrow> char" where
  "digit d = ''0123456789'' ! d"

fun showNat :: "nat \<Rightarrow> string" where
  "showNat n = (if n < 10 then [digit n] else showNat (n div 10) @ [digit (n mod 10)])"

section \<open>fetchCommits\<close>

subsection \<open>One page of commits\<close>

text \<open>
  \<^verbatim>\<open>commits.forEach((commit: any) => {
    const commitDate = new Date(commit.commit.author.date);
    const monthIndex = commitDate.getMonth();
    monthlyCommits[monthIndex].commits += 1;
  });\<close>
  \<open>getMonth\<close> of an Invalid Date is \<open>NaN\<close>, and \<open>monthlyCommits[NaN]\<close> is
  \<open>undefined\<close>, whose property \<open>commits\<close> cannot be read: a \<open>TypeError\<close>, as for
  any index outside the array. The array is mutated in place, so the buckets
  incremented before the error stay incremented.
\<close>

definition monthIndex :: "runtime \<Rightarrow> Commit \<Rightarrow> nat option" where
  "monthIndex rt commit = map_option (getMonth rt) (author_date commit)"

definition increment :: "CommitData list \<Rightarrow> nat \<Rightarrow> CommitData list" where
  "increment mc i = mc[i := (mc ! i)\<lparr>commits := commits (mc ! i) + 1\<rparr>]"

fun forEachCommit :: "runtime \<Rightarrow> Commit list \<Rightarrow> CommitData list \<Rightarrow> outcome \<times> CommitData list" where
  "forEachCommit rt [] mc = (Normal, mc)"
| "forEachCommit rt (commit # rest) mc =
     (case monthIndex rt commit of
        None \<Rightarrow> (Thrown ''TypeError'', mc)
      | Some i \<Rightarrow>
          if i < length mc then forEachCommit rt rest (increment mc i)
          else (Thrown ''TypeError'', mc))"

subsection \<open>The pagination loop\<close>

text \<open>
  \<^verbatim>\<open>let page = 1; let hasMoreCommits = true;
  while (hasMoreCommits) {
    const res = await fetchWithAuth(`.../repos/${username}/${repo.name}/commits?since=..&until=..&per_page=100&page=${page}`);
    if (res.ok) {
      const commits = await res.json();
      commits.forEach(...);
      hasMoreCommits = commits.length === 100;
      page++;
      if (page > 5) { hasMoreCommits = false; }
    } else if (res.status === 409 || res.status === 404) {
      hasMoreCommits = false;
    } else {
      console.warn(`Error fetching commits for ${repo.name}: ${res.status}`);
      hasMoreCommits = false;
    }
  }\<close>
  \<open>pageLoop\<close> is the loop entered with the given \<open>page\<close>; the source enters it with
  page 1. Its result is how the loop was left (normally, or by an exception) and the
  variables then.
\<close>

function pageLoop :: "runtime \<Rightarrow> string \<Rightarrow> Repo \<Rightarrow> int \<Rightarrow> int \<Rightarrow> nat \<Rightarrow> run \<Rightarrow> outcome \<times> run" where
  "pageLoop rt user repo since until page a =
     (let res = repoCommits rt user (name repo) since until page;
          a1 = fetchWithAuth (GetCommits user (name repo) since until page) res a
      in case res of
           Rejected msg \<Rightarrow> (Thrown msg, a1)
         | Response status body \<Rightarrow>
             if ok status then
               (case body of
                  Inl msg \<Rightarrow> (Thrown msg, a1)
                | Inr cs \<Rightarrow>
                    (case forEachCommit rt cs (monthlyCommits a1) of
                       (Thrown msg, mc) \<Rightarrow> (Thrown msg, a1\<lparr>monthlyCommits := mc\<rparr>)
                     | (Normal, mc) \<Rightarrow>
                         if length cs = 100 \<and> \<not> page + 1 > 5
                         then pageLoop rt user repo since until (page + 1) (a1\<lparr>monthlyCommits := mc\<rparr>)
                         else (Normal, a1\<lparr>monthlyCommits := mc\<rparr>)))
             else if status = 409 \<or> status = 404 then (Normal, a1)
             else (Normal, a1\<lparr>console := console a1 @
                     [ConsoleWarn (''Error fetching commits for '' @ name repo @ '': '' @ showNat status)]\<rparr>))"
  by pat_completeness auto
termination
  by (relation "measure (\<lambda>(rt, user, repo, since, until, page, a). 5 - page)") auto

subsection \<open>The loop over the repositories\<close>

text \<open>
  \<^verbatim>\<open>try { ...the pagination loop... }
  catch (repoError) { console.error(`Error processing repo ${repo.name}:`, repoError); }\<close>
\<close>

definition tryRepo :: "runtime \<Rightarrow> string \<Rightarrow> Repo \<Rightarrow> int \<Rightarrow> int \<Rightarrow> run \<Rightarrow> run" where
  "tryRepo rt user repo since until a =
     (case pageLoop rt user repo since until 1 a of
        (Normal, a') \<Rightarrow> a'
      | (Thrown msg, a') \<Rightarrow>
          a'\<lparr>console := console a' @ [ConsoleError (''Error processing repo '' @ name repo @ '':'') msg]\<rparr>)"

text \<open>
  \<^verbatim>\<open>const since = new Date(year, 0, 1).toISOString();
  let until = new Date(year, 11, 31, 23, 59, 59).toISOString();
  if (year === currentYear && new Date(until) > now) { until = now.toISOString(); }\<close>
  \<open>toISOString\<close> of an Invalid Date throws a \<open>RangeError\<close>, outside the inner
  \<open>try\<close>. \<open>queryWindow\<close> is the pair \<open>(since, until)\<close> that goes into the URL.
\<close>

definition queryWindow :: "runtime \<Rightarrow> int \<Rightarrow> int \<Rightarrow> int \<Rightarrow> string + (int \<times> int)" where
  "queryWindow rt year now currentYear =
     (case newDate rt year 0 1 0 0 0 of
        None \<Rightarrow> Inl ''Invalid time value''
      | Some since \<Rightarrow>
          (case newDate rt year 11 31 23 59 59 of
             None \<Rightarrow> Inl ''Invalid time value''
           | Some until \<Rightarrow>
               Inr (since, if year = currentYear \<and> until > now then now else until)))"

fun forLoop :: "runtime \<Rightarrow> string \<Rightarrow> int \<Rightarrow> int \<Rightarrow> int \<Rightarrow> Repo list \<Rightarrow> run \<Rightarrow> outcome \<times> run" where
  "forLoop rt user year now currentYear [] a = (Normal, a)"
| "forLoop rt user year now currentYear (repo # rest) a =
     (case queryWindow rt year now currentYear of
        Inl msg \<Rightarrow> (Thrown msg, a)
      | Inr (since, until) \<Rightarrow>
          forLoop rt user year now currentYear rest (tryRepo rt user repo since until a))"

subsection \<open>The handler\<close>

text \<open>
  \<^verbatim>\<open>const monthlyCommits = Array.from({ length: 12 }, (_, i) => ({
    month: new Date(year, i).toLocaleString("default", { month: "short" }),
    commits: 0 }));\<close>
\<close>

definition freshBuckets :: "runtime \<Rightarrow> int \<Rightarrow> CommitData list" where
  "freshBuckets rt year =
     map (\<lambda>i. \<lparr>month = monthShort rt (newDate rt year i 1 0 0 0), commits = 0\<rparr>) [0..<12]"

text \<open>
  \<open>fetchCommits(year, customRepos)\<close>: the early return on an empty list, the four
  state resets, the loop over \<open>customRepos.slice(0, 25)\<close>, then
  \<open>setCommitData(monthlyCommits); setShowChart(true)\<close>, or \<open>setError\<close> in the outer
  \<open>catch\<close>, and \<open>setLoading(false)\<close> in \<open>finally\<close>. The user name is the one of the
  React state.
\<close>

definition fetchCommits :: "runtime \<Rightarrow> int \<Rightarrow> Repo list \<Rightarrow> app \<Rightarrow> app" where
  "fetchCommits rt year customRepos st =
     (if length customRepos = 0 then st
      else
        let st1 = st\<lparr>loading := True, commitData := [], showChart := False, error := ''''\<rparr>;
            now = clock rt (length (requests st1));
            currentYear = getFullYear rt now;
            reposToProcess = take 25 customRepos
        in case forLoop rt (username st1) year now currentYear reposToProcess
                  \<lparr>requests = requests st1, console = console st1,
                   monthlyCommits = freshBuckets rt year\<rparr> of
             (Normal, a) \<Rightarrow>
               st1\<lparr>requests := requests a, console := console a,
                   commitData := monthlyCommits a, showChart := True, loading := False\<rparr>
           | (Thrown msg, a) \<Rightarrow>
               st1\<lparr>requests := requests a, console := console a,
                   error := msg, loading := False\<rparr>)"

definition handleYearChange :: "runtime \<Rightarrow> int \<Rightarrow> app \<Rightarrow> app" where
  "handleYearChange rt year st = fetchCommits rt year (repos st) (st\<lparr>selectedYear := Some year\<rparr>)"

section \<open>fetchReposAndYears\<close>

text \<open>
  \<^verbatim>\<open>const yearRange = Array.from({ length: currentYear - createdYear + 1 },
    (_, i) => createdYear + i).reverse();\<close>
  A negative length, and the \<open>NaN\<close> that an Invalid Date gives, make the empty array.
\<close>

definition yearRange :: "int option \<Rightarrow> int \<Rightarrow> int list" where
  "yearRange createdYear currentYear =
     (case createdYear of
        None \<Rightarrow> []
      | Some cy \<Rightarrow> rev (map (\<lambda>i. cy + int i) [0..<nat (currentYear - cy + 1)]))"

definition userError :: "nat \<Rightarrow> string" where
  "userError status =
     (if status = 404 then ''User not found''
      else if status = 403 then ''API rate limit exceeded or authentication issue''
      else if status = 401 then ''Invalid GitHub token. Check your configuration.''
      else ''GitHub API error: '' @ showNat status)"

text \<open>
  The handler of the search button. Every \<open>throw\<close> inside its \<open>try\<close> ends in
  \<open>setError(error.message); setLoading(false)\<close>: \<open>failWith\<close>.
\<close>

definition failWith :: "string \<Rightarrow> app \<Rightarrow> app" where
  "failWith msg st = st\<lparr>error := msg, loading := False\<rparr>"

definition fetchReposAndYears :: "runtime \<Rightarrow> app \<Rightarrow> app" where
  "fetchReposAndYears rt st =
     (if username st = [] then st\<lparr>error := ''Please enter a GitHub username''\<rparr>
      else
        let st1 = st\<lparr>loading := True, error := '''', commitData := [], repos := [],
                     years := [], showChart := False\<rparr>;
            userRes = users rt (username st1);
            st2 = fetchWithAuth (GetUser (username st1)) userRes st1
        in case userRes of
             Rejected msg \<Rightarrow> failWith msg st2
           | Response status body \<Rightarrow>
               if \<not> ok status then failWith (userError status) st2
               else
                 (case body of
                    Inl msg \<Rightarrow> failWith msg st2
                  | Inr userData \<Rightarrow>
                      let createdYear = map_option (getFullYear rt) (created_at userData);
                          currentYear = getFullYear rt (clock rt (length (requests st2)));
                          st3 = st2\<lparr>years := yearRange createdYear currentYear,
                                    selectedYear := Some currentYear\<rparr>;
                          reposRes = userRepos rt (username st3);
                          st4 = fetchWithAuth (GetRepos (username st3)) reposRes st3
                      in case reposRes of
                           Rejected msg \<Rightarrow> failWith msg st4
                         | Response rstatus rbody \<Rightarrow>
                             if \<not> ok rstatus
                             then failWith (''Failed to fetch repositories: '' @ showNat rstatus) st4
                             else
                               (case rbody of
                                  Inl msg \<Rightarrow> failWith msg st4
                                | Inr reposData \<Rightarrow>
                                    let st5 = st4\<lparr>repos := reposData\<rparr>
                                    in if length reposData > 0
                                       then fetchCommits rt currentYear reposData st5
                                       else st5\<lparr>loading := False,
                                               error := ''No repositories found for this user''\<rparr>)))"

section \<open>The chart summary\<close>

text \<open>
  \<^verbatim>\<open>commitData.reduce((sum, data) => sum + data.commits, 0)
  commitData.reduce((max, data) => data.commits > max.commits ? data : max, commitData[0]).month\<close>
  On an empty array \<open>commitData[0]\<close> is \<open>undefined\<close> and reading \<open>month\<close> throws:
  \<open>None\<close>.
\<close>

definition totalCommits :: "CommitData list \<Rightarrow> nat" where
  "totalCommits cd = foldl (\<lambda>sum d. sum + commits d) 0 cd"

definition mostActive :: "CommitData list \<Rightarrow> CommitData option" where
  "mostActive cd =
     (case cd of
        [] \<Rightarrow> None
      | d0 # _ \<Rightarrow> Some (foldl (\<lambda>mx d. if commits d > commits mx then d else mx) d0 cd))"

text \<open>
  What the right column shows below the year selector:
  \<^verbatim>\<open>{years.length > 0 && ( ...
    {showChart && commitData.length > 0 && (
      commitData.every((d) => d.commits === 0) ? <div>No commits found ...</div>
      : <div> <BarChart data={commitData}/> Total commits ... Most active month ... </div>)})}\<close>
\<close>

datatype view = Hidden | NoCommitsFound | Chart "CommitData list" nat "string option"

definition chartView :: "app \<Rightarrow> view" where
  "chartView st =
     (if length (years st) > 0 \<and> showChart st \<and> length (commitData st) > 0 then
        (if list_all (\<lambda>d. commits d = 0) (commitData st) then NoCommitsFound
         else Chart (commitData st) (totalCommits (commitData st))
                (map_option month (mostActive (commitData st))))
      else Hidden)"

section \<open>What the buckets should hold\<close>

text \<open>
  The words of the specification, to compare \<open>forEachCommit\<close> with: every commit is
  counted in the bucket of the month of its authored date. \<open>monthCount rt i cs\<close> is
  the number of commits of \<open>cs\<close> authored in month \<open>i\<close>, and \<open>addCounts\<close> adds
  these numbers to the buckets.
\<close>

definition monthCount :: "runtime \<Rightarrow> nat \<Rightarrow> Commit list \<Rightarrow> nat" where
  "monthCount rt i cs = length (filter (\<lambda>c. monthIndex rt c = Some i) cs)"

definition addCounts :: "runtime \<Rightarrow> Commit list \<Rightarrow> CommitData list \<Rightarrow> CommitData list" where
  "addCounts rt cs mc =
     map (\<lambda>i. (mc ! i)\<lparr>commits := commits (mc ! i) + monthCount rt i cs\<rparr>) [0..<length mc]"

section \<open>A concrete runtime\<close>

text \<open>
  A browser in the UTC time zone with English month names, and a small table of API
  answers, to run the handlers on concrete inputs. The calendar is the one of
  ECMAScript (\<open>DayFromYear\<close>, \<open>MakeDay\<close>, \<open>MakeTime\<close>, the time value limited to
  8.64e15 ms, a year from 0 to 99 taken as 1900 + year); the year and month of a time
  value are computed from the day number by the usual 400-year-era arithmetic.
\<close>

definition msPerDay :: int where
  "msPerDay = 86400000"

definition dayFromYear :: "int \<Rightarrow> int" where
  "dayFromYear y = 365 * (y - 1970) + (y - 1969) div 4 - (y - 1901) div 100 + (y - 1601) div 400"

definition inLeapYear :: "int \<Rightarrow> bool" where
  "inLeapYear y \<longleftrightarrow> (y mod 4 = 0 \<and> y mod 100 \<noteq> 0) \<or> y mod 400 = 0"

definition dayWithinYear :: "int \<Rightarrow> nat \<Rightarrow> int" where
  "dayWithinYear y m =
     int ([0, 31, 59, 90, 120, 151, 181, 212, 243, 273, 304, 334] ! m)
       + (if inLeapYear y \<and> 2 \<le> m then 1 else 0)"

definition utcDate :: "int \<Rightarrow> nat \<Rightarrow> nat \<Rightarrow> nat \<Rightarrow> nat \<Rightarrow> nat \<Rightarrow> int option" where
  "utcDate year m d h mi s =
     (let y0 = (if 0 \<le> year \<and> year \<le> 99 then 1900 + year else year);
          y = y0 + int (m div 12);
          day = dayFromYear y + dayWithinYear y (m mod 12) + int d - 1;
          t = day * msPerDay + int ((h * 60 + mi) * 60 + s) * 1000
      in if \<bar>t\<bar> \<le> 8640000000000000 then Some t else None)"

definition civilFromTime :: "int \<Rightarrow> int \<times> nat" where
  "civilFromTime t =
     (let z = t div msPerDay + 719468;
          era = z div 146097;
          doe = z mod 146097;
          yoe = (doe - doe div 1460 + doe div 36524 - doe div 146096) div 365;
          doy = doe - (365 * yoe + yoe div 4 - yoe div 100);
          mp = (5 * doy + 2) div 153;
          m = (if mp < 10 then mp + 3 else mp - 9);
          y = yoe + era * 400 + (if m \<le> 2 then 1 else 0)
      in (y, nat (m - 1)))"

definition utcMonthShort :: "int option \<Rightarrow> string" where
  "utcMonthShort d =
     (case d of
        None \<Rightarrow> ''Invalid Date''
      | Some t \<Rightarrow>
          [''Jan'', ''Feb'', ''Mar'', ''Apr'', ''May'', ''Jun'',
           ''Jul'', ''Aug'', ''Sep'', ''Oct'', ''Nov'', ''Dec''] ! snd (civilFromTime t))"

text \<open>\<open>commitsIn m n\<close>: \<open>n\<close> commits authored on the 15th of month \<open>m\<close> of 2026, at noon.\<close>

definition commitsIn :: "nat \<Rightarrow> nat \<Rightarrow> Commit list" where
  "commitsIn m n = replicate n \<lparr>author_date = utcDate 2026 m 15 12 0 0\<rparr>"

text \<open>
  The answers of the API, by repository name: \<open>mid\<close> has 230 commits in 2026 (pages of
  100, 100 and 30), \<open>big\<close> has a full page of 100 commits at every page, \<open>gone\<close>
  answers 404, \<open>empty\<close> 409, \<open>err\<close> 500, on \<open>down\<close> the connection fails, on
  \<open>garbled\<close> the body is not JSON, and \<open>undated\<close> has one commit whose date does
  not parse; any other repository has three commits in June.
\<close>

definition midPages :: "nat \<Rightarrow> Commit list" where
  "midPages page =
     (if page = 1 then commitsIn 0 100
      else if page = 2 then commitsIn 1 60 @ commitsIn 2 40
      else if page = 3 then commitsIn 11 30
      else [])"

definition sampleCommits :: "string \<Rightarrow> string \<Rightarrow> int \<Rightarrow> int \<Rightarrow> nat \<Rightarrow> Commit list response" where
  "sampleCommits user repoName since until page =
     (if repoName = ''mid'' then Response 200 (Inr (midPages page))
      else if repoName = ''big'' then Response 200 (Inr (commitsIn 4 100))
      else if repoName = ''gone'' then Response 404 (Inl ''not read'')
      else if repoName = ''empty'' then Response 409 (Inl ''not read'')
      else if repoName = ''err'' then Response 500 (Inl ''not read'')
      else if repoName = ''down'' then Rejected ''Failed to fetch''
      else if repoName = ''garbled'' then Response 200 (Inl ''Unexpected token'')
      else if repoName = ''undated'' then Response 200 (Inr [\<lparr>author_date = None\<rparr>])
      else Response 200 (Inr (if page = 1 then commitsIn 5 3 else [])))"

definition mkRepo :: "string \<Rightarrow> Repo" where
  "mkRepo n = \<lparr>repo_id = int (length n), name = n, html_url = ''https://github.com/octocat/'' @ n\<rparr>"

definition sampleRepos :: "string \<Rightarrow> Repo list response" where
  "sampleRepos user =
     (if user = ''repofail'' then Response 500 (Inl ''not read'')
      else if user = ''norepos'' then Response 200 (Inr [])
      else Response 200 (Inr (map mkRepo [''gone'', ''mid'', ''err'', ''down''])))"

definition sampleUsers :: "string \<Rightarrow> UserData response" where
  "sampleUsers user =
     (if user = ''ghost'' then Response 404 (Inl ''not read'')
      else if user = ''badtoken'' then Response 401 (Inl ''not read'')
      else if user = ''limited'' then Response 403 (Inl ''not read'')
      else if user = ''broken'' then Response 500 (Inl ''not read'')
      else Response 200 (Inr \<lparr>created_at = utcDate 2020 5 1 0 0 0\<rparr>))"

text \<open>The clock starts on 2 November 2026, 00:00:00 UTC, and every request takes a second.\<close>

definition sampleRuntime :: runtime where
  "sampleRuntime =
     \<lparr>clock = (\<lambda>n. 1793577600000 + 1000 * int n),
      getFullYear = (\<lambda>t. fst (civilFromTime t)),
      getMonth = (\<lambda>t. snd (civilFromTime t)),
      newDate = utcDate,
      monthShort = utcMonthShort,
      users = sampleUsers,
      userRepos = sampleRepos,
      repoCommits = sampleCommits\<rparr>"

text \<open>The state of the component when the user has typed a name and nothing else happened.\<close>

definition initialState :: "string \<Rightarrow> app" where
  "initialState user =
     \<lparr>requests = [], console = [], username = user, repos = [], commitData = [],
      loading = False, error = '''', years = [], selectedYear = None, showChart = False\<rparr>"

text \<open>Buckets with a tie for the peak, in a state that shows them.\<close>

definition sampleData :: "CommitData list" where
  "sampleData = [\<lparr>month = ''Jan'', commits = 4\<rparr>, \<lparr>month = ''Feb'', commits = 9\<rparr>,
                 \<lparr>month = ''Mar'', commits = 9\<rparr>, \<lparr>month = ''Apr'', commits = 0\<rparr>]"

definition sampleShown :: app where
  "sampleShown = (initialState ''octocat'')\<lparr>years := [2026], showChart := True, commitData := sampleData\<rparr>"

definition emptyRun :: run where
  "emptyRun = \<lparr>requests = [], console = [], monthlyCommits = freshBuckets sampleRuntime 2026\<rparr>"

section \<open>Properties of the loops\<close>

declare pageLoop.simps [simp del]

declare showNat.simps [simp del]

lemma totalCommits_sum: "totalCommits cd = sum_list (map commits cd)"
proof -
  have "foldl (\<lambda>sum d. sum + commits d) n cd = n + sum_list (map commits cd)" for n
    by (induction cd arbitrary: n) auto
  then show ?thesis by (simp add: totalCommits_def)
qed

lemma length_increment [simp]: "length (increment mc i) = length mc"
  by (simp add: increment_def)

lemma sum_list_update_nat: "i < length xs \<Longrightarrow> sum_list (xs[i := Suc (xs ! i)]) = Suc (sum_list xs)"
  for xs :: "nat list"
  by (induction xs arbitrary: i) (auto split: nat.splits)

lemma total_increment: "i < length mc \<Longrightarrow> totalCommits (increment mc i) = totalCommits mc + 1"
  using sum_list_update_nat[of i "map commits mc"]
  by (simp add: totalCommits_sum increment_def map_update)

lemma forEachCommit_length: "length (snd (forEachCommit rt cs mc)) = length mc"
  by (induction cs arbitrary: mc) (auto split: option.splits)

lemma forEachCommit_total_le:
  "totalCommits (snd (forEachCommit rt cs mc)) \<le> totalCommits mc + length cs"
proof (induction cs arbitrary: mc)
  case Nil
  then show ?case by simp
next
  case (Cons c cs)
  show ?case
  proof (cases "monthIndex rt c")
    case None
    then show ?thesis by simp
  next
    case (Some i)
    show ?thesis
    proof (cases "i < length mc")
      case True
      with Some Cons.IH[of "increment mc i"] show ?thesis
        by (simp add: total_increment)
    next
      case False
      with Some show ?thesis by simp
    qed
  qed
qed

lemma requests_fetchWithAuth [simp]: "requests (fetchWithAuth url res tr) = requests tr @ [url]"
  by (simp add: fetchWithAuth_def split: response.splits)

lemma console_fetchWithAuth_Response [simp]:
  "fetchWithAuth url (Response status body) tr = tr\<lparr>requests := requests tr @ [url]\<rparr>"
  by (simp add: fetchWithAuth_def)

lemma monthlyCommits_fetchWithAuth [simp]:
  "monthlyCommits (fetchWithAuth url res a) = monthlyCommits a"
  by (simp add: fetchWithAuth_def split: response.splits)

text \<open>one unfolding of the loop, by the response\<close>

lemma pageLoop_Rejected:
  "repoCommits rt user (name repo) since until page = Rejected msg \<Longrightarrow>
   pageLoop rt user repo since until page a =
     (Thrown msg, fetchWithAuth (GetCommits user (name repo) since until page) (Rejected msg :: Commit list response) a)"
  by (subst pageLoop.simps) (simp add: Let_def)

lemma pageLoop_not_ok:
  "repoCommits rt user (name repo) since until page = Response status body \<Longrightarrow> \<not> ok status \<Longrightarrow>
   pageLoop rt user repo since until page a =
     (Normal,
      if status = 409 \<or> status = 404 then a\<lparr>requests := requests a @ [GetCommits user (name repo) since until page]\<rparr>
      else a\<lparr>requests := requests a @ [GetCommits user (name repo) since until page],
             console := console a @
               [ConsoleWarn (''Error fetching commits for '' @ name repo @ '': '' @ showNat status)]\<rparr>)"
  by (subst pageLoop.simps) (simp add: Let_def)

lemma pageLoop_json_rejected:
  "repoCommits rt user (name repo) since until page = Response status (Inl msg) \<Longrightarrow> ok status \<Longrightarrow>
   pageLoop rt user repo since until page a =
     (Thrown msg, a\<lparr>requests := requests a @ [GetCommits user (name repo) since until page]\<rparr>)"
  by (subst pageLoop.simps) (simp add: Let_def)

lemma pageLoop_ok:
  "repoCommits rt user (name repo) since until page = Response status (Inr cs) \<Longrightarrow> ok status \<Longrightarrow>
   pageLoop rt user repo since until page a =
     (let a1 = a\<lparr>requests := requests a @ [GetCommits user (name repo) since until page]\<rparr>
      in case forEachCommit rt cs (monthlyCommits a) of
           (Thrown msg, mc) \<Rightarrow> (Thrown msg, a1\<lparr>monthlyCommits := mc\<rparr>)
         | (Normal, mc) \<Rightarrow>
             if length cs = 100 \<and> page < 5
             then pageLoop rt user repo since until (page + 1) (a1\<lparr>monthlyCommits := mc\<rparr>)
             else (Normal, a1\<lparr>monthlyCommits := mc\<rparr>))"
  by (subst pageLoop.simps) (auto simp add: Let_def split: prod.splits outcome.splits)

text \<open>the requests of the loop: consecutive pages, at least one, never beyond page 5 when
  entered at a page up to 5\<close>

lemma pageLoop_requests:
  "\<exists>n. 1 \<le> n \<and> n \<le> max 1 (6 - page) \<and>
     requests (snd (pageLoop rt user repo since until page a)) =
       requests a @ map (GetCommits user (name repo) since until) [page..<page + n]"
proof (induction rt user repo since until page a rule: pageLoop.induct)
  case (1 rt user repo since until page a)
  let ?url = "GetCommits user (name repo) since until"
  show ?case
  proof (cases "repoCommits rt user (name repo) since until page")
    case (Rejected msg)
    then have "requests (snd (pageLoop rt user repo since until page a)) = requests a @ map ?url [page..<page + 1]"
      by (simp add: pageLoop_Rejected)
    then show ?thesis by (intro exI[of _ 1]) simp
  next
    case (Response status body)
    show ?thesis
    proof (cases "ok status")
      case False
      with Response have "requests (snd (pageLoop rt user repo since until page a)) = requests a @ map ?url [page..<page + 1]"
        by (simp add: pageLoop_not_ok)
      then show ?thesis by (intro exI[of _ 1]) simp
    next
      case True
      show ?thesis
      proof (cases body)
        case (Inl msg)
        with Response True have "requests (snd (pageLoop rt user repo since until page a)) = requests a @ map ?url [page..<page + 1]"
          by (simp add: pageLoop_json_rejected)
        then show ?thesis by (intro exI[of _ 1]) simp
      next
        case (Inr cs)
        obtain oc mc where fe: "forEachCommit rt cs (monthlyCommits a) = (oc, mc)"
          by (cases "forEachCommit rt cs (monthlyCommits a)")
        show ?thesis
        proof (cases "oc = Normal \<and> length cs = 100 \<and> page < 5")
          case False
          with Response True Inr fe
          have "requests (snd (pageLoop rt user repo since until page a)) = requests a @ map ?url [page..<page + 1]"
            by (cases oc) (auto simp add: pageLoop_ok Let_def)
          then show ?thesis by (intro exI[of _ 1]) simp
        next
          case go: True
          let ?a1 = "fetchWithAuth (?url page) (repoCommits rt user (name repo) since until page) a"
          from go fe have fe': "(Normal, mc) = forEachCommit rt cs (monthlyCommits ?a1)"
            by simp
          from go have cond: "length cs = 100 \<and> \<not> 5 < page + 1" by simp
          from "1.IH"[OF refl refl Response True Inr fe' refl cond]
          obtain n where n: "1 \<le> n" "n \<le> max 1 (6 - (page + 1))"
            "requests (snd (pageLoop rt user repo since until (page + 1) (?a1\<lparr>monthlyCommits := mc\<rparr>))) =
               requests (?a1\<lparr>monthlyCommits := mc\<rparr>) @ map ?url [page + 1..<page + 1 + n]"
            by blast
          from Response True Inr fe go
          have eq: "pageLoop rt user repo since until page a =
                pageLoop rt user repo since until (page + 1) (?a1\<lparr>monthlyCommits := mc\<rparr>)"
            by (simp add: pageLoop_ok Let_def)
          have "[page..<page + (n + 1)] = page # [page + 1..<page + 1 + n]"
            by (simp add: upt_rec)
          with n(3) eq have "requests (snd (pageLoop rt user repo since until page a)) =
              requests a @ map ?url [page..<page + (n + 1)]"
            by simp
          moreover from n(1,2) go have "1 \<le> n + 1 \<and> n + 1 \<le> max 1 (6 - page)" by auto
          ultimately show ?thesis by blast
        qed
      qed
    qed
  qed
qed

lemma map_month_increment [simp]: "map month (increment mc i) = map month mc"
  by (cases "i < length mc") (simp_all add: increment_def map_update list_update_same_conv list_update_beyond)

lemma forEachCommit_months: "map month (snd (forEachCommit rt cs mc)) = map month mc"
  by (induction cs arbitrary: mc) (auto split: option.splits)

lemma pageLoop_monthly:
  assumes step: "\<And>p st cs mc. repoCommits rt user (name repo) since until p = Response st (Inr cs) \<Longrightarrow>
              ok st \<Longrightarrow> R p mc \<Longrightarrow> R (Suc p) (snd (forEachCommit rt cs mc))"
    and start: "R page (monthlyCommits a)"
  shows "\<exists>n. n \<le> max 1 (6 - page) \<and>
           R (page + n) (monthlyCommits (snd (pageLoop rt user repo since until page a)))"
  using step start
proof (induction rt user repo since until page a rule: pageLoop.induct)
  case (1 rt user repo since until page a)
  let ?url = "GetCommits user (name repo) since until"
  note step = "1.prems"(1)

  have stay: "monthlyCommits (snd (pageLoop rt user repo since until page a)) = monthlyCommits a \<Longrightarrow> ?case"
    using "1.prems"(2) by (intro exI[of _ 0]) simp
  show ?case
  proof (cases "repoCommits rt user (name repo) since until page")
    case (Rejected msg)
    then show ?thesis by (intro stay) (simp add: pageLoop_Rejected)
  next
    case (Response status body)
    show ?thesis
    proof (cases "ok status")
      case False
      with Response show ?thesis by (intro stay) (simp add: pageLoop_not_ok)
    next
      case True
      show ?thesis
      proof (cases body)
        case (Inl msg)
        with Response True show ?thesis by (intro stay) (simp add: pageLoop_json_rejected)
      next
        case (Inr cs)
        obtain oc mc where fe: "forEachCommit rt cs (monthlyCommits a) = (oc, mc)"
          by (cases "forEachCommit rt cs (monthlyCommits a)")
        from step[OF Response[unfolded Inr] True "1.prems"(2)] fe
        have R1: "R (Suc page) mc" by simp
        show ?thesis
        proof (cases "oc = Normal \<and> length cs = 100 \<and> page < 5")
          case False
          with Response True Inr fe
          have "monthlyCommits (snd (pageLoop rt user repo since until page a)) = mc"
            by (cases oc) (auto simp add: pageLoop_ok Let_def)
          with R1 show ?thesis by (intro exI[of _ 1]) simp
        next
          case go: True
          let ?a1 = "fetchWithAuth (?url page) (repoCommits rt user (name repo) since until page) a"
          from go fe have fe': "(Normal, mc) = forEachCommit rt cs (monthlyCommits ?a1)"
            by simp
          from go have cond: "length cs = 100 \<and> \<not> 5 < page + 1" by simp
          from R1 have R1': "R (page + 1) (monthlyCommits (?a1\<lparr>monthlyCommits := mc\<rparr>))" by simp
          have "\<exists>n. n \<le> max 1 (6 - (page + 1)) \<and>
            R (page + 1 + n) (monthlyCommits (snd (pageLoop rt user repo since until (page + 1) (?a1\<lparr>monthlyCommits := mc\<rparr>))))"
          proof (rule "1.IH"[OF refl refl Response True Inr fe' refl cond])
            show "R (Suc p) (snd (forEachCommit rt cs mc))"
              if "repoCommits rt user (name repo) since until p = Response st (Inr cs)" "ok st" "R p mc"
              for p st cs mc
              using that by (rule step)
            show "R (page + 1) (monthlyCommits (?a1\<lparr>monthlyCommits := mc\<rparr>))"
              by (rule R1')
          qed
          then obtain n where n: "n \<le> max 1 (6 - (page + 1))"
            "R (page + 1 + n) (monthlyCommits (snd (pageLoop rt user repo since until (page + 1) (?a1\<lparr>monthlyCommits := mc\<rparr>))))"
            by blast
          from Response True Inr fe go
          have eq: "pageLoop rt user repo since until page a =
                pageLoop rt user repo since until (page + 1) (?a1\<lparr>monthlyCommits := mc\<rparr>)"
            by (simp add: pageLoop_ok Let_def)
          from n(2) eq have "R (page + (n + 1)) (monthlyCommits (snd (pageLoop rt user repo since until page a)))"
            by (simp add: add.commute add.left_commute)
          moreover from n(1) go have "n + 1 \<le> max 1 (6 - page)" by auto
          ultimately show ?thesis by blast
        qed
      qed
    qed
  qed
qed

lemma pageLoop_months:
  "map month (monthlyCommits (snd (pageLoop rt user repo since until page a))) = map month (monthlyCommits a)"
  using pageLoop_monthly[where R = "\<lambda>p mc. map month mc = map month (monthlyCommits a)" and a = a]
  by (auto simp: forEachCommit_months)

lemma pageLoop_length:
  "length (monthlyCommits (snd (pageLoop rt user repo since until page a))) = length (monthlyCommits a)"
  using pageLoop_months[of rt user repo since until page a, THEN arg_cong, of length] by simp

lemma pageLoop_total_le:
  assumes size: "\<And>p st cs. repoCommits rt user (name repo) since until p = Response st (Inr cs) \<Longrightarrow> length cs \<le> 100"
  shows "totalCommits (monthlyCommits (snd (pageLoop rt user repo since until page a)))
           \<le> totalCommits (monthlyCommits a) + 100 * max 1 (6 - page)"
proof -
  let ?R = "\<lambda>p mc. totalCommits mc + 100 * page \<le> totalCommits (monthlyCommits a) + 100 * p"
  have "\<exists>n. n \<le> max 1 (6 - page) \<and>
          ?R (page + n) (monthlyCommits (snd (pageLoop rt user repo since until page a)))"
  proof (rule pageLoop_monthly[where R = ?R])
    show "?R (Suc p) (snd (forEachCommit rt cs mc))"
      if "repoCommits rt user (name repo) since until p = Response st (Inr cs)" "ok st" "?R p mc"
      for p st cs mc
      using forEachCommit_total_le[of rt cs mc] size[OF that(1)] that(3) by simp
    show "?R page (monthlyCommits a)" by simp
  qed
  then obtain n where "n \<le> max 1 (6 - page)"
    "?R (page + n) (monthlyCommits (snd (pageLoop rt user repo since until page a)))"
    by auto
  then show ?thesis by (simp add: algebra_simps) 
qed

subsection \<open>The concrete runtime\<close>

lemma sampleRuntime_sel [simp]:
  "repoCommits sampleRuntime = sampleCommits"
  "users sampleRuntime = sampleUsers"
  "userRepos sampleRuntime = sampleRepos"
  "newDate sampleRuntime = utcDate"
  "monthShort sampleRuntime = utcMonthShort"
  "clock sampleRuntime n = 1793577600000 + 1000 * int n"
  "getFullYear sampleRuntime t = fst (civilFromTime t)"
  "getMonth sampleRuntime t = snd (civilFromTime t)"
  by (simp_all add: sampleRuntime_def)

lemma length_commitsIn [simp]: "length (commitsIn m n) = n"
  by (simp add: commitsIn_def)

lemma sampleCommits_size:
  "sampleCommits user repoName since until page = Response st (Inr cs) \<Longrightarrow> length cs \<le> 100"
  by (auto simp: sampleCommits_def midPages_def split: if_splits)

subsection \<open>Counting by month\<close>

lemma length_freshBuckets [simp]: "length (freshBuckets rt year) = 12"
  by (simp add: freshBuckets_def)

lemma length_addCounts [simp]: "length (addCounts rt cs mc) = length mc"
  by (simp add: addCounts_def)

lemma nth_addCounts:
  "i < length mc \<Longrightarrow> addCounts rt cs mc ! i = (mc ! i)\<lparr>commits := commits (mc ! i) + monthCount rt i cs\<rparr>"
  by (simp add: addCounts_def)

lemma addCounts_Nil [simp]: "addCounts rt [] mc = mc"
  by (rule nth_equalityI) (simp_all add: nth_addCounts monthCount_def)

lemma addCounts_Cons:
  assumes "monthIndex rt c = Some i" "i < length mc"
  shows "addCounts rt (c # cs) mc = addCounts rt cs (increment mc i)"
proof (rule nth_equalityI)
  show "length (addCounts rt (c # cs) mc) = length (addCounts rt cs (increment mc i))"
    by simp
next
  fix j assume "j < length (addCounts rt (c # cs) mc)"
  then have j: "j < length mc" by simp
  show "addCounts rt (c # cs) mc ! j = addCounts rt cs (increment mc i) ! j"
  proof (cases "j = i")
    case True
    with assms j show ?thesis
      by (simp add: nth_addCounts monthCount_def increment_def)
  next
    case False
    with assms j show ?thesis
      by (simp add: nth_addCounts monthCount_def increment_def)
  qed
qed

lemma forEachCommit_addCounts:
  "\<forall>c\<in>set cs. \<exists>i<length mc. monthIndex rt c = Some i \<Longrightarrow>
   forEachCommit rt cs mc = (Normal, addCounts rt cs mc)"
proof (induction cs arbitrary: mc)
  case Nil
  then show ?case by simp
next
  case (Cons c cs)
  then obtain i where i: "i < length mc" "monthIndex rt c = Some i" by auto
  from Cons.prems have "\<forall>c\<in>set cs. \<exists>k<length (increment mc i). monthIndex rt c = Some k"
    by simp
  from Cons.IH[OF this] i show ?case
    by (simp add: addCounts_Cons)
qed

lemma addCounts_append:
  "addCounts rt (cs @ ds) mc = addCounts rt ds (addCounts rt cs mc)"
  by (rule nth_equalityI) (simp_all add: nth_addCounts monthCount_def)

lemma total_addCounts:
  assumes "\<forall>c\<in>set cs. \<exists>i<length mc. monthIndex rt c = Some i"
  shows "totalCommits (addCounts rt cs mc) = totalCommits mc + length cs"
  using assms
proof (induction cs arbitrary: mc)
  case Nil
  then show ?case by simp
next
  case (Cons c cs)
  then obtain i where i: "i < length mc" "monthIndex rt c = Some i" by auto
  from Cons.prems have "\<forall>c\<in>set cs. \<exists>k<length (increment mc i). monthIndex rt c = Some k"
    by simp
  from Cons.IH[OF this] i show ?case
    by (simp add: addCounts_Cons total_increment)
qed

lemmas calendar_defs = utcDate_def civilFromTime_def dayFromYear_def
        dayWithinYear_def inLeapYear_def msPerDay_def

lemma sample_months:
  "monthIndex sampleRuntime \<lparr>author_date = utcDate 2026 0 15 12 0 0\<rparr> = Some 0"
  "monthIndex sampleRuntime \<lparr>author_date = utcDate 2026 1 15 12 0 0\<rparr> = Some 1"
  "monthIndex sampleRuntime \<lparr>author_date = utcDate 2026 2 15 12 0 0\<rparr> = Some 2"
  "monthIndex sampleRuntime \<lparr>author_date = utcDate 2026 3 15 12 0 0\<rparr> = Some 3"
  "monthIndex sampleRuntime \<lparr>author_date = utcDate 2026 4 15 12 0 0\<rparr> = Some 4"
  "monthIndex sampleRuntime \<lparr>author_date = utcDate 2026 5 15 12 0 0\<rparr> = Some 5"
  "monthIndex sampleRuntime \<lparr>author_date = utcDate 2026 11 15 12 0 0\<rparr> = Some 11"
  by (simp_all add: monthIndex_def calendar_defs Let_def cong: let_weak_cong)

lemma commitsIn_dated:
  "monthIndex sampleRuntime \<lparr>author_date = utcDate 2026 m 15 12 0 0\<rparr> = Some m \<Longrightarrow>
   c \<in> set (commitsIn m n) \<Longrightarrow> monthIndex sampleRuntime c = Some m"
  by (auto simp: commitsIn_def)

lemma sample_dates:
  "utcDate 2026 0 1 0 0 0 = Some 1767225600000"
  "utcDate 2026 11 31 23 59 59 = Some 1798761599000"
  "utcDate 2027 0 1 0 0 0 = Some 1798761600000"
  "utcDate 2027 11 31 23 59 59 = Some 1830297599000"
  by (simp_all add: calendar_defs Let_def cong: let_weak_cong)

lemma sample_years:
  "civilFromTime 1793577600000 = (2026, 10)"
  "civilFromTime 1793577601000 = (2026, 10)"
  "civilFromTime 1793577602000 = (2026, 10)"
  by (simp_all add: calendar_defs Let_def cong: let_weak_cong)

subsection \<open>One repository, and the loop over the repositories\<close>

lemma tryRepo_requests_eq:
  "requests (tryRepo rt user repo since until a) = requests (snd (pageLoop rt user repo since until 1 a))"
  by (simp add: tryRepo_def split: prod.splits outcome.splits)

lemma tryRepo_monthlyCommits:
  "monthlyCommits (tryRepo rt user repo since until a) =
   monthlyCommits (snd (pageLoop rt user repo since until 1 a))"
  by (simp add: tryRepo_def split: prod.splits outcome.splits)

lemma tryRepo_requests:
  "\<exists>n. 1 \<le> n \<and> n \<le> 5 \<and>
     requests (tryRepo rt user repo since until a) =
       requests a @ map (GetCommits user (name repo) since until) [1..<1 + n]"
  using pageLoop_requests[of 1 rt user repo since until a] by (simp add: tryRepo_requests_eq)

lemma tryRepo_total_le:
  assumes "\<And>p st cs. repoCommits rt user (name repo) since until p = Response st (Inr cs) \<Longrightarrow> length cs \<le> 100"
  shows "totalCommits (monthlyCommits (tryRepo rt user repo since until a))
           \<le> totalCommits (monthlyCommits a) + 500"
  using pageLoop_total_le[of rt user repo since until 1 a, OF assms]
  by (simp add: tryRepo_monthlyCommits)

lemma tryRepo_months:
  "map month (monthlyCommits (tryRepo rt user repo since until a)) = map month (monthlyCommits a)"
  by (simp add: tryRepo_monthlyCommits pageLoop_months)


lemma forLoop_Normal:
  "queryWindow rt year now cy = Inr (since, until) \<Longrightarrow> fst (forLoop rt user year now cy rs a) = Normal"
  by (induction rs arbitrary: a) simp_all

lemma forLoop_append:
  "queryWindow rt year now cy = Inr (since, until) \<Longrightarrow>
   forLoop rt user year now cy (rs @ rs') a =
     forLoop rt user year now cy rs' (snd (forLoop rt user year now cy rs a))"
  by (induction rs arbitrary: a) simp_all

lemma forLoop_invalid:
  "queryWindow rt year now cy = Inl msg \<Longrightarrow>
   forLoop rt user year now cy rs a = (if rs = [] then (Normal, a) else (Thrown msg, a))"
  by (cases rs) simp_all

lemma forLoop_months:
  "map month (monthlyCommits (snd (forLoop rt user year now cy rs a))) = map month (monthlyCommits a)"
proof (cases "queryWindow rt year now cy")
  case (Inl msg)
  then show ?thesis by (simp add: forLoop_invalid)
next
  case (Inr w)
  obtain since until where "w = (since, until)" by (cases w)
  with Inr have "queryWindow rt year now cy = Inr (since, until)" by simp
  then show ?thesis
    by (induction rs arbitrary: a) (simp_all add: tryRepo_months)
qed

lemma forLoop_total_le:
  assumes size: "\<And>r s u p st cs. r \<in> set rs \<Longrightarrow>
              repoCommits rt user (name r) s u p = Response st (Inr cs) \<Longrightarrow> length cs \<le> 100"
  shows "totalCommits (monthlyCommits (snd (forLoop rt user year now cy rs a)))
           \<le> totalCommits (monthlyCommits a) + length rs * 5 * 100"
proof (cases "queryWindow rt year now cy")
  case (Inl msg)
  then show ?thesis by (simp add: forLoop_invalid)
next
  case (Inr w)
  obtain since until where "w = (since, until)" by (cases w)
  with Inr have w: "queryWindow rt year now cy = Inr (since, until)" by simp
  from size show ?thesis
  proof (induction rs arbitrary: a)
    case Nil
    then show ?case by simp
  next
    case (Cons r rs)
    have "totalCommits (monthlyCommits (tryRepo rt user r since until a))
           \<le> totalCommits (monthlyCommits a) + 500"
    proof (rule tryRepo_total_le)
      fix p st cs
      assume "repoCommits rt user (name r) since until p = Response st (Inr cs)"
      then show "length cs \<le> 100" using Cons.prems[of r] by simp
    qed
    moreover have "totalCommits (monthlyCommits (snd (forLoop rt user year now cy rs
                      (tryRepo rt user r since until a))))
           \<le> totalCommits (monthlyCommits (tryRepo rt user r since until a)) + length rs * 5 * 100"
    proof (rule Cons.IH)
      fix r' s u p st cs
      assume "r' \<in> set rs" "repoCommits rt user (name r') s u p = Response st (Inr cs)"
      then show "length cs \<le> 100" using Cons.prems[of r'] by simp
    qed
    ultimately show ?case using w by simp
  qed
qed

lemma forLoop_requests:
  assumes w: "queryWindow rt year now cy = Inr (since, until)"
  shows "\<exists>ns. length ns = length rs \<and> (\<forall>n\<in>set ns. 1 \<le> n \<and> n \<le> 5) \<and>
     requests (snd (forLoop rt user year now cy rs a)) =
       requests a @ concat (map2 (\<lambda>r n. map (GetCommits user (name r) since until) [1..<1 + n]) rs ns)"
proof (induction rs arbitrary: a)
  case Nil
  then show ?case by simp
next
  case (Cons r rs)
  obtain n where n: "1 \<le> n" "n \<le> 5"
    "requests (tryRepo rt user r since until a) =
       requests a @ map (GetCommits user (name r) since until) [1..<1 + n]"
    using tryRepo_requests by blast
  obtain ns where ns: "length ns = length rs" "\<forall>n\<in>set ns. 1 \<le> n \<and> n \<le> 5"
    "requests (snd (forLoop rt user year now cy rs (tryRepo rt user r since until a))) =
       requests (tryRepo rt user r since until a) @
       concat (map2 (\<lambda>r n. map (GetCommits user (name r) since until) [1..<1 + n]) rs ns)"
    using Cons[of "tryRepo rt user r since until a"] by blast
  show ?case
  proof (intro exI[of _ "n # ns"] conjI)
    show "length (n # ns) = length (r # rs)" using ns(1) by simp
    show "\<forall>n\<in>set (n # ns). 1 \<le> n \<and> n \<le> 5" using n ns(2) by simp
    show "requests (snd (forLoop rt user year now cy (r # rs) a)) =
       requests a @ concat (map2 (\<lambda>r n. map (GetCommits user (name r) since until) [1..<1 + n]) (r # rs) (n # ns))"
      using w n(3) ns(3) by simp
  qed
qed

text \<open>the handler, when the dates of the year are valid\<close>

lemma fetchCommits_empty: "fetchCommits rt year [] st = st"
  by (simp add: fetchCommits_def)

lemma fetchCommits_valid:
  assumes "customRepos \<noteq> []"
    and "queryWindow rt year (clock rt (length (requests st)))
           (getFullYear rt (clock rt (length (requests st)))) = Inr (since, until)"
  shows "fetchCommits rt year customRepos st =
     (let a = snd (forLoop rt (username st) year (clock rt (length (requests st)))
                     (getFullYear rt (clock rt (length (requests st)))) (take 25 customRepos)
                     \<lparr>requests = requests st, console = console st,
                      monthlyCommits = freshBuckets rt year\<rparr>)
      in st\<lparr>requests := requests a, console := console a, commitData := monthlyCommits a,
            loading := False, error := '''', showChart := True\<rparr>)"
proof -
  let ?now = "clock rt (length (requests st))"
  let ?a0 = "\<lparr>requests = requests st, console = console st, monthlyCommits = freshBuckets rt year\<rparr>"
  obtain oc a where fl: "forLoop rt (username st) year ?now (getFullYear rt ?now) (take 25 customRepos) ?a0 = (oc, a)"
    by (cases "forLoop rt (username st) year ?now (getFullYear rt ?now) (take 25 customRepos) ?a0")
  with forLoop_Normal[OF assms(2), of "username st" "take 25 customRepos" ?a0]
  have "oc = Normal" by simp
  with fl assms(1) show ?thesis
    by (simp add: fetchCommits_def Let_def)
qed

lemma fetchCommits_invalid:
  assumes "customRepos \<noteq> []"
    and "queryWindow rt year (clock rt (length (requests st)))
           (getFullYear rt (clock rt (length (requests st)))) = Inl msg"
  shows "fetchCommits rt year customRepos st =
           st\<lparr>commitData := [], showChart := False, error := msg, loading := False\<rparr>"
  using assms by (simp add: fetchCommits_def Let_def forLoop_invalid)

subsection \<open>Facts for the sum of the buckets\<close>

lemma totalCommits_fresh [simp]: "totalCommits (freshBuckets rt year) = 0"
  by (simp add: totalCommits_sum freshBuckets_def)

lemma totalCommits_Nil [simp]: "totalCommits [] = 0"
  by (simp add: totalCommits_def)

lemma sample_window:
  "queryWindow sampleRuntime 2026 (clock sampleRuntime 0) (getFullYear sampleRuntime (clock sampleRuntime 0))
     = Inr (1767225600000, 1793577600000)"
  by (simp add: queryWindow_def sample_dates sample_years del: One_nat_def)

subsection \<open>Buckets that no commit touches\<close>

lemma nth_increment_other: "j \<noteq> i \<Longrightarrow> increment mc j ! i = mc ! i"
  by (simp add: increment_def)

lemma forEachCommit_untouched:
  "\<forall>c\<in>set cs. monthIndex rt c \<noteq> Some i \<Longrightarrow>
   commits (snd (forEachCommit rt cs mc) ! i) = commits (mc ! i)"
proof (induction cs arbitrary: mc)
  case Nil
  then show ?case by simp
next
  case (Cons c cs)
  show ?case
  proof (cases "monthIndex rt c")
    case None
    then show ?thesis by simp
  next
    case (Some j)
    with Cons.prems have "j \<noteq> i" by auto
    with Some Cons show ?thesis by (simp add: nth_increment_other)
  qed
qed

lemma pageLoop_untouched:
  assumes "\<And>p st cs c. repoCommits rt user (name repo) since until p = Response st (Inr cs) \<Longrightarrow>
             c \<in> set cs \<Longrightarrow> monthIndex rt c \<noteq> Some i"
  shows "commits (monthlyCommits (snd (pageLoop rt user repo since until page a)) ! i)
           = commits (monthlyCommits a ! i)"
proof -
  let ?R = "\<lambda>p mc. commits (mc ! i) = commits (monthlyCommits a ! i)"
  have "\<exists>n. n \<le> max 1 (6 - page) \<and>
          ?R (page + n) (monthlyCommits (snd (pageLoop rt user repo since until page a)))"
  proof (rule pageLoop_monthly[where R = ?R])
    show "?R (Suc p) (snd (forEachCommit rt cs mc))"
      if "repoCommits rt user (name repo) since until p = Response st (Inr cs)" "ok st" "?R p mc"
      for p st cs mc
      using forEachCommit_untouched[of cs rt i mc] assms[OF that(1)] that(3) by simp
    show "?R page (monthlyCommits a)" by simp
  qed
  then show ?thesis by blast
qed

lemma forLoop_untouched:
  assumes "\<And>r s u p st cs c. r \<in> set rs \<Longrightarrow>
             repoCommits rt user (name r) s u p = Response st (Inr cs) \<Longrightarrow>
             c \<in> set cs \<Longrightarrow> monthIndex rt c \<noteq> Some i"
  shows "commits (monthlyCommits (snd (forLoop rt user year now cy rs a)) ! i)
           = commits (monthlyCommits a ! i)"
proof (cases "queryWindow rt year now cy")
  case (Inl msg)
  then show ?thesis by (simp add: forLoop_invalid)
next
  case (Inr w)
  obtain since until where "w = (since, until)" by (cases w)
  with Inr have w: "queryWindow rt year now cy = Inr (since, until)" by simp
  from assms show ?thesis
  proof (induction rs arbitrary: a)
    case Nil
    then show ?case by simp
  next
    case (Cons r rs)
    have "commits (monthlyCommits (tryRepo rt user r since until a) ! i) = commits (monthlyCommits a ! i)"
      unfolding tryRepo_monthlyCommits
    proof (rule pageLoop_untouched)
      fix p st cs c
      assume "repoCommits rt user (name r) since until p = Response st (Inr cs)" "c \<in> set cs"
      then show "monthIndex rt c \<noteq> Some i" using Cons.prems[of r] by simp
    qed
    moreover have "commits (monthlyCommits (snd (forLoop rt user year now cy rs
                      (tryRepo rt user r since until a))) ! i)
           = commits (monthlyCommits (tryRepo rt user r since until a) ! i)"
    proof (rule Cons.IH)
      fix r' s u p st cs c
      assume "r' \<in> set rs" "repoCommits rt user (name r') s u p = Response st (Inr cs)" "c \<in> set cs"
      then show "monthIndex rt c \<noteq> Some i" using Cons.prems[of r'] by simp
    qed
    ultimately show ?case using w by simp
  qed
qed

lemma queryWindow_valid:
  assumes "newDate rt year 0 1 0 0 0 \<noteq> None" "newDate rt year 11 31 23 59 59 \<noteq> None"
  shows "\<exists>since until. queryWindow rt year now cy = Inr (since, until)"
  using assms by (auto simp: queryWindow_def split: option.splits)

lemma nth_freshBuckets:
  "i < 12 \<Longrightarrow> freshBuckets rt year ! i = \<lparr>month = monthShort rt (newDate rt year i 1 0 0 0), commits = 0\<rparr>"
  unfolding freshBuckets_def by (subst nth_map) simp_all

lemma list_all_buckets:
  "length cd = 12 \<Longrightarrow> list_all (\<lambda>d. commits d = 0) cd \<longleftrightarrow> (\<forall>i<12. commits (cd ! i) = 0)"
  by (simp add: list_all_length)

subsection \<open>The sample repositories have no commit in April\<close>

lemma sample_months_Suc:
  "monthIndex sampleRuntime \<lparr>author_date = utcDate 2026 (Suc 0) 15 12 0 0\<rparr> = Some 1"
  using sample_months(2) by simp

lemma sampleQuiet:
  assumes "sampleCommits user r s u p = Response st' (Inr cs)" "c \<in> set cs"
    and "r = ''mid'' \<or> r = ''gone''"
  shows "monthIndex sampleRuntime c \<noteq> Some 3"
proof -
  from assms(1,3) have "r = ''mid''"
    by (auto simp: sampleCommits_def)
  with assms(1) have "cs = commitsIn 0 100 \<or> cs = commitsIn 1 60 @ commitsIn 2 40
      \<or> cs = commitsIn 11 30 \<or> cs = []"
    by (auto simp: sampleCommits_def midPages_def split: if_splits)
  with assms(2) have "monthIndex sampleRuntime c \<in> {Some 0, Some 1, Some 2, Some 11}"
    by (auto simp: commitsIn_def sample_months sample_months_Suc)
  then show ?thesis by auto
qed

subsection \<open>The reduction that picks the peak month\<close>

lemma foldl_peak:
  fixes a :: CommitData
  defines "f \<equiv> (\<lambda>mx d. if commits d > commits mx then d else mx)"
  shows "(foldl f a xs = a \<and> (\<forall>j<length xs. commits (xs ! j) \<le> commits a)) \<or>
         (\<exists>i<length xs. foldl f a xs = xs ! i \<and> commits a < commits (xs ! i) \<and>
            (\<forall>j<i. commits (xs ! j) < commits (xs ! i)) \<and>
            (\<forall>j<length xs. commits (xs ! j) \<le> commits (xs ! i)))"
proof (induction xs arbitrary: a)
  case Nil
  then show ?case by simp
next
  case (Cons x xs)
  let ?b = "if commits x > commits a then x else a"
  have step: "foldl f a (x # xs) = foldl f ?b xs" by (simp add: f_def)
  have ba: "commits a \<le> commits ?b" and bx: "commits x \<le> commits ?b" by simp_all
  from Cons[of ?b] consider
    (keep) "foldl f ?b xs = ?b" "\<forall>j<length xs. commits (xs ! j) \<le> commits ?b"
    | (later) i where "i < length xs" "foldl f ?b xs = xs ! i" "commits ?b < commits (xs ! i)"
        "\<forall>j<i. commits (xs ! j) < commits (xs ! i)"
        "\<forall>j<length xs. commits (xs ! j) \<le> commits (xs ! i)"
    by blast
  then show ?case
  proof cases
    case keep
    show ?thesis
    proof (cases "commits x > commits a")
      case True
      have "\<forall>j<length (x # xs). commits ((x # xs) ! j) \<le> commits x"
        using keep(2) True by (auto simp: nth_Cons split: nat.splits)
      with True keep(1) step have "\<exists>i<length (x # xs). foldl f a (x # xs) = (x # xs) ! i \<and>
            commits a < commits ((x # xs) ! i) \<and>
            (\<forall>j<i. commits ((x # xs) ! j) < commits ((x # xs) ! i)) \<and>
            (\<forall>j<length (x # xs). commits ((x # xs) ! j) \<le> commits ((x # xs) ! i))"
        by (intro exI[of _ 0]) simp
      then show ?thesis by blast
    next
      case False
      have "\<forall>j<length (x # xs). commits ((x # xs) ! j) \<le> commits a"
        using keep(2) False by (auto simp: nth_Cons split: nat.splits)
      with False keep(1) step show ?thesis by simp
    qed
  next
    case later
    have lt: "commits x < commits (xs ! i)" "commits a < commits (xs ! i)"
      using later(3) ba bx by linarith+
    have "\<forall>j<Suc i. commits ((x # xs) ! j) < commits (xs ! i)"
      using later(4) lt(1) by (auto simp: nth_Cons split: nat.splits)
    moreover have "\<forall>j<length (x # xs). commits ((x # xs) ! j) \<le> commits (xs ! i)"
      using later(5) lt(1) by (auto simp: nth_Cons split: nat.splits)
    ultimately have "\<exists>k<length (x # xs). foldl f a (x # xs) = (x # xs) ! k \<and>
            commits a < commits ((x # xs) ! k) \<and>
            (\<forall>j<k. commits ((x # xs) ! j) < commits ((x # xs) ! k)) \<and>
            (\<forall>j<length (x # xs). commits ((x # xs) ! j) \<le> commits ((x # xs) ! k))"
      using later(1,2) lt(2) step by (intro exI[of _ "Suc i"]) simp
    then show ?thesis by blast
  qed
qed

lemma mostActive_earliest_peak:
  assumes "cd \<noteq> []"
  shows "\<exists>i<length cd. mostActive cd = Some (cd ! i) \<and>
           (\<forall>j<length cd. commits (cd ! j) \<le> commits (cd ! i)) \<and>
           (\<forall>j<i. commits (cd ! j) < commits (cd ! i))"
proof -
  let ?f = "\<lambda>mx d. if commits d > commits mx then d else mx"
  from assms obtain d0 rest where cd: "cd = d0 # rest" by (cases cd) auto
  then have ma: "mostActive cd = Some (foldl ?f d0 rest)"
    by (simp add: mostActive_def)
  from foldl_peak[of d0 rest] consider
    (first) "foldl ?f d0 rest = d0" "\<forall>j<length rest. commits (rest ! j) \<le> commits d0"
    | (later) i where "i < length rest" "foldl ?f d0 rest = rest ! i" "commits d0 < commits (rest ! i)"
        "\<forall>j<i. commits (rest ! j) < commits (rest ! i)"
        "\<forall>j<length rest. commits (rest ! j) \<le> commits (rest ! i)"
    by blast
  then show ?thesis
  proof cases
    case first
    have "\<forall>j<length cd. commits (cd ! j) \<le> commits (cd ! 0)"
      using first(2) cd by (auto simp: nth_Cons split: nat.splits)
    with first(1) ma cd show ?thesis by (intro exI[of _ 0]) simp
  next
    case later
    have "\<forall>j<length cd. commits (cd ! j) \<le> commits (cd ! Suc i)"
      using later(3,5) cd by (auto simp: nth_Cons split: nat.splits)
    moreover have "\<forall>j<Suc i. commits (cd ! j) < commits (cd ! Suc i)"
      using later(3,4) cd by (auto simp: nth_Cons split: nat.splits)
    ultimately show ?thesis
      using later(1,2) ma cd by (intro exI[of _ "Suc i"]) simp
  qed
qed

subsection \<open>The requests of a run carry the window of the year\<close>

lemma concat_pages_requests:
  "q \<in> set (concat (map2 (\<lambda>r n. map (GetCommits user (name r) since until) [1..<1 + n]) rs ns)) \<Longrightarrow>
   \<exists>r p. q = GetCommits user r since until p"
  by (induction rs arbitrary: ns) (auto simp: zip_Cons1 split: list.splits)

lemma fetchCommits_requests_window:
  assumes "customRepos \<noteq> []"
    and "queryWindow rt year (clock rt (length (requests st)))
           (getFullYear rt (clock rt (length (requests st)))) = Inr (since, until)"
    and "q \<in> set (drop (length (requests st)) (requests (fetchCommits rt year customRepos st)))"
  shows "\<exists>r p. q = GetCommits (username st) r since until p"
proof -
  let ?now = "clock rt (length (requests st))"
  let ?init = "\<lparr>requests = requests st, console = console st, monthlyCommits = freshBuckets rt year\<rparr>"
  from forLoop_requests[OF assms(2), of "take 25 customRepos" "username st" ?init]
  obtain ns where "requests (snd (forLoop rt (username st) year ?now (getFullYear rt ?now)
        (take 25 customRepos) ?init)) =
      requests st @ concat (map2 (\<lambda>r n. map (GetCommits (username st) (name r) since until) [1..<1 + n])
                   (take 25 customRepos) ns)"
    by auto
  with assms(3) fetchCommits_valid[OF assms(1,2)]
  have "q \<in> set (concat (map2 (\<lambda>r n. map (GetCommits (username st) (name r) since until) [1..<1 + n])
                   (take 25 customRepos) ns))"
    by (simp add: Let_def)
  then show ?thesis by (rule concat_pages_requests)
qed

subsection \<open>A run of the sample for the year 2027\<close>

lemma sample_window_2027:
  "queryWindow sampleRuntime 2027 (clock sampleRuntime 0) (getFullYear sampleRuntime (clock sampleRuntime 0))
     = Inr (1798761600000, 1830297599000)"
  by (simp add: queryWindow_def sample_dates sample_years del: One_nat_def)

lemma sample_gone:
  "tryRepo sampleRuntime ''octocat'' (mkRepo ''gone'') since until a =
     a\<lparr>requests := requests a @ [GetCommits ''octocat'' ''gone'' since until 1]\<rparr>"
proof -
  have "repoCommits sampleRuntime ''octocat'' (name (mkRepo ''gone'')) since until 1
          = Response 404 (Inl ''not read'')"
    by (simp add: sampleCommits_def mkRepo_def)
  from pageLoop_not_ok[OF this, of a] show ?thesis
    by (simp add: tryRepo_def ok_def mkRepo_def)
qed

subsection \<open>Pages that all arrive\<close>

lemma pageLoop_pages:
  assumes "p \<le> k" and "k \<le> 5"
    and "\<And>q. p \<le> q \<Longrightarrow> q \<le> k \<Longrightarrow>
           \<exists>s. ok s \<and> repoCommits rt user (name repo) since until q = Response s (Inr (pages q))"
    and "\<And>q c. p \<le> q \<Longrightarrow> q \<le> k \<Longrightarrow> c \<in> set (pages q) \<Longrightarrow>
           \<exists>i<length (monthlyCommits a). monthIndex rt c = Some i"
    and "\<And>q. p \<le> q \<Longrightarrow> q < k \<Longrightarrow> length (pages q) = 100"
    and "length (pages k) \<noteq> 100 \<or> k = 5"
  shows "pageLoop rt user repo since until p a =
           (Normal, a\<lparr>requests := requests a @ map (GetCommits user (name repo) since until) [p..<Suc k],
                      monthlyCommits := addCounts rt (concat (map pages [p..<Suc k])) (monthlyCommits a)\<rparr>)"
  using assms
proof (induction "k - p" arbitrary: p a)
  case 0
  then have pk: "p = k" by simp
  from "0.prems"(3)[of p] pk obtain s where s: "ok s"
    "repoCommits rt user (name repo) since until p = Response s (Inr (pages p))"
    by auto
  have "\<forall>c\<in>set (pages p). \<exists>i<length (monthlyCommits a). monthIndex rt c = Some i"
    using "0.prems"(4)[of p] pk by simp
  then have fe: "forEachCommit rt (pages p) (monthlyCommits a) = (Normal, addCounts rt (pages p) (monthlyCommits a))"
    by (rule forEachCommit_addCounts)
  from "0.prems"(2,6) pk have stop: "\<not> (length (pages p) = 100 \<and> p < 5)" by auto
  from pk have "[p..<Suc k] = [p]" by simp
  with pageLoop_ok[OF s(2,1), of a] fe stop show ?case
    by (simp add: Let_def)
next
  case (Suc n)
  then have pk: "p < k" by simp
  from Suc.prems(3)[of p] pk obtain s where s: "ok s"
    "repoCommits rt user (name repo) since until p = Response s (Inr (pages p))"
    by auto
  have "\<forall>c\<in>set (pages p). \<exists>i<length (monthlyCommits a). monthIndex rt c = Some i"
    using Suc.prems(4)[of p] pk by simp
  then have fe: "forEachCommit rt (pages p) (monthlyCommits a) = (Normal, addCounts rt (pages p) (monthlyCommits a))"
    by (rule forEachCommit_addCounts)
  from Suc.prems(2) Suc.prems(5)[of p] pk have go: "length (pages p) = 100 \<and> p < 5" by simp
  let ?a' = "a\<lparr>requests := requests a @ [GetCommits user (name repo) since until p],
               monthlyCommits := addCounts rt (pages p) (monthlyCommits a)\<rparr>"
  have step: "pageLoop rt user repo since until p a = pageLoop rt user repo since until (Suc p) ?a'"
    using pageLoop_ok[OF s(2,1), of a] fe go by (simp add: Let_def)
  have rest: "pageLoop rt user repo since until (Suc p) ?a' =
           (Normal, ?a'\<lparr>requests := requests ?a' @ map (GetCommits user (name repo) since until) [Suc p..<Suc k],
                      monthlyCommits := addCounts rt (concat (map pages [Suc p..<Suc k])) (monthlyCommits ?a')\<rparr>)"
  proof (rule Suc.hyps(1))
    show "n = k - Suc p" using Suc.hyps(2) by simp
    show "Suc p \<le> k" using pk by simp
    show "k \<le> 5" by (rule Suc.prems(2))
    show "\<exists>s. ok s \<and> repoCommits rt user (name repo) since until q = Response s (Inr (pages q))"
      if "Suc p \<le> q" "q \<le> k" for q
      using Suc.prems(3)[of q] that by simp
    show "\<exists>i<length (monthlyCommits ?a'). monthIndex rt c = Some i"
      if "Suc p \<le> q" "q \<le> k" "c \<in> set (pages q)" for q c
      using Suc.prems(4)[of q c] that by simp
    show "length (pages q) = 100" if "Suc p \<le> q" "q < k" for q
      using Suc.prems(5)[of q] that by simp
    show "length (pages k) \<noteq> 100 \<or> k = 5" by (rule Suc.prems(6))
  qed
  from pk have "[p..<Suc k] = p # [Suc p..<Suc k]"
    by (simp add: upt_rec)
  with step rest show ?case
    by (simp add: addCounts_append)
qed

lemma monthCount_append: "monthCount rt i (cs @ ds) = monthCount rt i cs + monthCount rt i ds"
  by (simp add: monthCount_def)

lemma monthCount_replicate:
  "monthCount rt i (replicate n c) = (if monthIndex rt c = Some i then n else 0)"
  by (simp add: monthCount_def)

lemma pages_1_3: "[1..<Suc 3] = [1, 2, 3]"
  by (simp add: upt_rec)

lemma pages_1_5: "[1..<Suc 5] = [1, 2, 3, 4, 5]"
  by (simp add: upt_rec)

lemma mid_counts:
  "length (concat (map midPages [1, 2, 3])) = 230"
  "monthCount sampleRuntime 0 (concat (map midPages [1, 2, 3])) = 100"
  "monthCount sampleRuntime 1 (concat (map midPages [1, 2, 3])) = 60"
  "monthCount sampleRuntime 2 (concat (map midPages [1, 2, 3])) = 40"
  "monthCount sampleRuntime 11 (concat (map midPages [1, 2, 3])) = 30"
  "monthCount sampleRuntime 5 (concat (map midPages [1, 2, 3])) = 0"
  by (simp_all add: midPages_def commitsIn_def monthCount_append monthCount_replicate
        sample_months del: One_nat_def)

subsection \<open>A run over valid dates completes\<close>




lemma pageLoop_short_or_cap:
  assumes "1 \<le> k" and "k \<le> 5" and "length (monthlyCommits a) = 12"
    and "\<forall>q\<in>{1..k}. \<exists>s. ok s \<and>
           repoCommits rt user (name repo) since until q = Response s (Inr (pages q))"
    and "\<forall>q\<in>{1..k}. \<forall>c\<in>set (pages q). \<exists>i<12. monthIndex rt c = Some i"
    and "\<forall>q\<in>{1..<k}. length (pages q) = 100"
    and "length (pages k) < 100 \<or> k = 5"
  shows "\<exists>a'. pageLoop rt user repo since until 1 a = (Normal, a') \<and>
     requests a' = requests a @ map (GetCommits user (name repo) since until) [1..<Suc k] \<and>
     console a' = console a \<and>
     map month (monthlyCommits a') = map month (monthlyCommits a) \<and>
     (\<forall>i<12. commits (monthlyCommits a' ! i) =
        commits (monthlyCommits a ! i) + monthCount rt i (concat (map pages [1..<Suc k]))) \<and>
     totalCommits (monthlyCommits a') =
       totalCommits (monthlyCommits a) + length (concat (map pages [1..<Suc k]))"
proof -
  let ?cs = "concat (map pages [1..<Suc k])"
  let ?a' = "a\<lparr>requests := requests a @ map (GetCommits user (name repo) since until) [1..<Suc k],
               monthlyCommits := addCounts rt ?cs (monthlyCommits a)\<rparr>"
  have run: "pageLoop rt user repo since until 1 a = (Normal, ?a')"
  proof (rule pageLoop_pages)
    show "1 \<le> k" "k \<le> 5" by fact+
    show "\<exists>s. ok s \<and> repoCommits rt user (name repo) since until q = Response s (Inr (pages q))"
      if "1 \<le> q" "q \<le> k" for q
      using assms(4) that by simp
    show "\<exists>i<length (monthlyCommits a). monthIndex rt c = Some i"
      if "1 \<le> q" "q \<le> k" "c \<in> set (pages q)" for q c
      using assms(3,5) that by simp
    show "length (pages q) = 100" if "1 \<le> q" "q < k" for q
      using assms(6) that by simp
    show "length (pages k) \<noteq> 100 \<or> k = 5"
      using assms(7) by auto
  qed
  have dated: "\<forall>c\<in>set ?cs. \<exists>i<length (monthlyCommits a). monthIndex rt c = Some i"
    using assms(3,5) by auto
  have months: "map month (monthlyCommits ?a') = map month (monthlyCommits a)"
    using pageLoop_months[of rt user repo since until 1 a] run by simp
  have buckets: "\<forall>i<12. commits (monthlyCommits ?a' ! i) =
        commits (monthlyCommits a ! i) + monthCount rt i ?cs"
    using assms(3) by (simp add: nth_addCounts)
  have sum: "totalCommits (monthlyCommits ?a') = totalCommits (monthlyCommits a) + length ?cs"
    using total_addCounts[OF dated] by simp
  have "requests ?a' = requests a @ map (GetCommits user (name repo) since until) [1..<Suc k]"
    and "console ?a' = console a"
    by simp_all
  with run months buckets sum show ?thesis
    by (intro exI[of _ ?a']) (simp only: simp_thms)
qed

section \<open>Pagination of a repository whose pages all arrive (C1)\<close>

text \<open>
  Claim C1, as the code has it. For every repository the loop requests page 1, then
  page 2, and so on: the requests it adds are those of the pages 1 to \<open>n\<close>, in this
  order, for some \<open>n\<close> that is at least 1. Take a repository whose pages 1 to \<open>k\<close> all answer with
  a status in 200 to 299 and a list of commits with valid authored dates, the pages
  before \<open>k\<close> holding exactly 100 commits, and page \<open>k\<close> being the first one with fewer
  than 100 commits, or the fifth page. Then the loop requests the pages 1, 2, ..., \<open>k\<close>
  in this order and nothing else, it ends normally without a console line, and every
  commit of these pages is counted once, in the bucket of the month of its authored
  date: bucket \<open>i\<close> grows by the number of commits authored in month \<open>i\<close>, and the sum
  of the buckets by the number of commits. For pages of 100, 100 and 30 commits this is
  3 pages and 230 commits.

  The claim as stated, that pagination stops exactly when a page holds fewer than 100
  commits, fails at the page cap: in the sample, the repository whose every page is
  full is left after page 5, no page having held fewer than 100 commits.
\<close>

theorem pages_until_short_or_cap:
  "(\<exists>n. 1 \<le> n \<and>
      requests (snd (pageLoop rt user repo since until 1 a)) =
        requests a @ map (GetCommits user (name repo) since until) [1..<1 + n]) \<and>
   (1 \<le> k \<and> k \<le> 5 \<and> length (monthlyCommits a) = 12 \<and>
    (\<forall>q\<in>{1..k}. \<exists>s. ok s \<and>
           repoCommits rt user (name repo) since until q = Response s (Inr (pages q))) \<and>
    (\<forall>q\<in>{1..k}. \<forall>c\<in>set (pages q). \<exists>i<12. monthIndex rt c = Some i) \<and>
    (\<forall>q\<in>{1..<k}. length (pages q) = 100) \<and>
    (length (pages k) < 100 \<or> k = 5) \<longrightarrow>
    (\<exists>a'. pageLoop rt user repo since until 1 a = (Normal, a') \<and>
       requests a' = requests a @ map (GetCommits user (name repo) since until) [1..<Suc k] \<and>
       console a' = console a \<and>
       map month (monthlyCommits a') = map month (monthlyCommits a) \<and>
       (\<forall>i<12. commits (monthlyCommits a' ! i) =
          commits (monthlyCommits a ! i) + monthCount rt i (concat (map pages [1..<Suc k]))) \<and>
       totalCommits (monthlyCommits a') =
         totalCommits (monthlyCommits a) + length (concat (map pages [1..<Suc k]))))"
proof (intro conjI impI)
  from pageLoop_requests[of 1 rt user repo since until a]
  show "\<exists>n. 1 \<le> n \<and>
      requests (snd (pageLoop rt user repo since until 1 a)) =
        requests a @ map (GetCommits user (name repo) since until) [1..<1 + n]"
    by blast
next
  assume "1 \<le> k \<and> k \<le> 5 \<and> length (monthlyCommits a) = 12 \<and>
    (\<forall>q\<in>{1..k}. \<exists>s. ok s \<and>
           repoCommits rt user (name repo) since until q = Response s (Inr (pages q))) \<and>
    (\<forall>q\<in>{1..k}. \<forall>c\<in>set (pages q). \<exists>i<12. monthIndex rt c = Some i) \<and>
    (\<forall>q\<in>{1..<k}. length (pages q) = 100) \<and>
    (length (pages k) < 100 \<or> k = 5)"
  then have "1 \<le> k" "k \<le> 5" "length (monthlyCommits a) = 12"
    "\<forall>q\<in>{1..k}. \<exists>s. ok s \<and>
           repoCommits rt user (name repo) since until q = Response s (Inr (pages q))"
    "\<forall>q\<in>{1..k}. \<forall>c\<in>set (pages q). \<exists>i<12. monthIndex rt c = Some i"
    "\<forall>q\<in>{1..<k}. length (pages q) = 100"
    "length (pages k) < 100 \<or> k = 5"
    by simp_all
  then show "\<exists>a'. pageLoop rt user repo since until 1 a = (Normal, a') \<and>
       requests a' = requests a @ map (GetCommits user (name repo) since until) [1..<Suc k] \<and>
       console a' = console a \<and>
       map month (monthlyCommits a') = map month (monthlyCommits a) \<and>
       (\<forall>i<12. commits (monthlyCommits a' ! i) =
          commits (monthlyCommits a ! i) + monthCount rt i (concat (map pages [1..<Suc k]))) \<and>
       totalCommits (monthlyCommits a') =
         totalCommits (monthlyCommits a) + length (concat (map pages [1..<Suc k]))"
    by (rule pageLoop_short_or_cap)
qed

theorem pages_until_short_or_cap_witness:
  "(1::nat) \<le> 3 \<and> (3::nat) \<le> 5 \<and> length (monthlyCommits emptyRun) = 12 \<and>
   ok 200 \<and>
   map (repoCommits sampleRuntime ''octocat'' (name (mkRepo ''mid'')) 1767225600000 1793577600000) [1, 2, 3]
     = map (\<lambda>q. Response 200 (Inr (midPages q))) [1, 2, 3] \<and>
   map (\<lambda>q. length (midPages q)) [1, 2, 3] = [100, 100, 30] \<and>
   \<not> (\<exists>q c. q \<in> {1..3} \<and> c \<in> set (midPages q) \<and> (\<forall>i<12. monthIndex sampleRuntime c \<noteq> Some i)) \<and>
   (\<exists>a'. pageLoop sampleRuntime ''octocat'' (mkRepo ''mid'') 1767225600000 1793577600000 1 emptyRun
           = (Normal, a') \<and>
      requests a' = requests emptyRun @
        map (GetCommits ''octocat'' (name (mkRepo ''mid'')) 1767225600000 1793577600000) [1..<Suc 3] \<and>
      console a' = console emptyRun \<and>
      map month (monthlyCommits a') = map month (monthlyCommits emptyRun) \<and>
      (\<forall>i<12. commits (monthlyCommits a' ! i) =
         commits (monthlyCommits emptyRun ! i) +
         monthCount sampleRuntime i (concat (map midPages [1..<Suc 3]))) \<and>
      totalCommits (monthlyCommits a') =
        totalCommits (monthlyCommits emptyRun) + length (concat (map midPages [1..<Suc 3]))) \<and>
   [1..<Suc 3] = [1, 2, 3] \<and>
   totalCommits (monthlyCommits emptyRun) = 0 \<and>
   length (concat (map midPages [1, 2, 3])) = 230 \<and>
   monthCount sampleRuntime 0 (concat (map midPages [1, 2, 3])) = 100 \<and>
   monthCount sampleRuntime 1 (concat (map midPages [1, 2, 3])) = 60 \<and>
   monthCount sampleRuntime 2 (concat (map midPages [1, 2, 3])) = 40 \<and>
   monthCount sampleRuntime 11 (concat (map midPages [1, 2, 3])) = 30"
proof -
  let ?since = "1767225600000 :: int" and ?until = "1793577600000 :: int"
  have k: "(1::nat) \<le> 3" "(3::nat) \<le> 5" by simp_all
  have len: "length (monthlyCommits emptyRun) = 12" by (simp add: emptyRun_def)
  have ok: "ok 200" by (simp add: ok_def)
  have answers: "map (repoCommits sampleRuntime ''octocat'' (name (mkRepo ''mid'')) ?since ?until) [1, 2, 3]
     = map (\<lambda>q. Response 200 (Inr (midPages q))) [1, 2, 3]"
    by (simp add: sampleCommits_def mkRepo_def)
  have sizes: "map (\<lambda>q. length (midPages q)) [1, 2, 3] = [100, 100, 30]"
    by (simp add: midPages_def)
  have h4: "\<forall>q\<in>{1..3}. \<exists>s. ok s \<and>
      repoCommits sampleRuntime ''octocat'' (name (mkRepo ''mid'')) ?since ?until q
        = Response s (Inr (midPages q))"
    using ok by (auto simp: sampleCommits_def mkRepo_def)
  have h5: "\<forall>q\<in>{1..3}. \<forall>c\<in>set (midPages q). \<exists>i<12. monthIndex sampleRuntime c = Some i"
    by (auto simp: midPages_def commitsIn_def sample_months sample_months_Suc split: if_splits)
  then have h5': "\<not> (\<exists>q c. q \<in> {1..3} \<and> c \<in> set (midPages q) \<and>
      (\<forall>i<12. monthIndex sampleRuntime c \<noteq> Some i))"
    by blast
  have h6: "\<forall>q\<in>{1..<3}. length (midPages q) = 100"
    by (auto simp: midPages_def)
  have h7: "length (midPages 3) < 100 \<or> (3::nat) = 5"
    by (simp add: midPages_def)
  note both = pages_until_short_or_cap[of sampleRuntime "''octocat''" "mkRepo ''mid''" ?since ?until
      emptyRun 3 midPages]
  note run = both[THEN conjunct2, THEN mp,
      OF conjI[OF k(1) conjI[OF k(2) conjI[OF len conjI[OF h4 conjI[OF h5 conjI[OF h6 h7]]]]]]]
  have zero: "totalCommits (monthlyCommits emptyRun) = 0"
    by (simp add: emptyRun_def)
  show ?thesis
    by (intro conjI) (fact k len ok answers sizes h5' run pages_1_3 zero mid_counts)+
qed

theorem full_pages_stop_at_cap:
  "map (repoCommits sampleRuntime ''octocat'' (name (mkRepo ''big'')) 1767225600000 1793577600000)
       [1, 2, 3, 4, 5, 6]
     = replicate 6 (Response 200 (Inr (commitsIn 4 100))) \<and>
   length (commitsIn 4 100) = 100 \<and>
   fst (pageLoop sampleRuntime ''octocat'' (mkRepo ''big'') 1767225600000 1793577600000 1 emptyRun) = Normal \<and>
   requests (snd (pageLoop sampleRuntime ''octocat'' (mkRepo ''big'') 1767225600000 1793577600000 1 emptyRun))
     = map (GetCommits ''octocat'' ''big'' 1767225600000 1793577600000) [1, 2, 3, 4, 5] \<and>
   console (snd (pageLoop sampleRuntime ''octocat'' (mkRepo ''big'') 1767225600000 1793577600000 1 emptyRun)) = []"
proof -
  let ?since = "1767225600000 :: int" and ?until = "1793577600000 :: int"
  have answers: "map (repoCommits sampleRuntime ''octocat'' (name (mkRepo ''big'')) ?since ?until)
       [1, 2, 3, 4, 5, 6] = replicate 6 (Response 200 (Inr (commitsIn 4 100)))"
    by (simp add: sampleCommits_def mkRepo_def numeral_eq_Suc)
  have full: "length (commitsIn 4 100) = 100" by simp
  have run: "pageLoop sampleRuntime ''octocat'' (mkRepo ''big'') ?since ?until 1 emptyRun =
      (Normal, emptyRun\<lparr>requests := requests emptyRun @
                  map (GetCommits ''octocat'' (name (mkRepo ''big'')) ?since ?until) [1..<Suc 5],
                monthlyCommits := addCounts sampleRuntime
                  (concat (map (\<lambda>q. commitsIn 4 100) [1..<Suc 5])) (monthlyCommits emptyRun)\<rparr>)"
  proof (rule pageLoop_pages)
    show "(1::nat) \<le> 5" "(5::nat) \<le> 5" by simp_all
    show "\<exists>s. ok s \<and> repoCommits sampleRuntime ''octocat'' (name (mkRepo ''big'')) ?since ?until q
            = Response s (Inr (commitsIn 4 100))" for q
      by (simp add: sampleCommits_def mkRepo_def ok_def)
    show "\<exists>i<length (monthlyCommits emptyRun). monthIndex sampleRuntime c = Some i"
      if "c \<in> set (commitsIn 4 100)" for c
      using commitsIn_dated[OF sample_months(5) that] by (simp add: emptyRun_def)
    show "length (commitsIn 4 100) = 100" by simp
    show "length (commitsIn 4 100) \<noteq> 100 \<or> (5::nat) = 5" by simp
  qed
  have reqs: "requests (snd (pageLoop sampleRuntime ''octocat'' (mkRepo ''big'') ?since ?until 1 emptyRun))
     = map (GetCommits ''octocat'' ''big'' ?since ?until) [1, 2, 3, 4, 5]"
    unfolding run pages_1_5 by (simp add: emptyRun_def mkRepo_def)
  have cons: "console (snd (pageLoop sampleRuntime ''octocat'' (mkRepo ''big'') ?since ?until 1 emptyRun)) = []"
    unfolding run by (simp add: emptyRun_def)
  have norm: "fst (pageLoop sampleRuntime ''octocat'' (mkRepo ''big'') ?since ?until 1 emptyRun) = Normal"
    unfolding run by simp
  show ?thesis
    by (intro conjI) (fact answers full norm reqs cons)+
qed

section \<open>Failures of one repository (C2)\<close>



section \<open>The empty repository list (C3)\<close>

text \<open>
  Claim C3, as the code has it. Called with an empty list, \<open>fetchCommits\<close> returns at
  once: the state is the one it was called in, so no request is sent, no error is set,
  and no bucket is created (\<open>commitData\<close> keeps what it held, the empty array after
  a search). When a search finds the user and an empty list of repositories,
  \<open>fetchCommits\<close> is not called: the two setup requests are the only ones, \<open>commitData\<close>
  is the empty array, and the error message \<open>No repositories found for this user\<close>
  is set.

  The claim as stated, 12 zero buckets and no error, fails: in the sample, a run on the
  empty list from the initial state leaves \<open>commitData\<close> empty, and the search for a
  user without repositories ends with the error message.
\<close>

theorem empty_list_returns_at_once:
  "fetchCommits rt year [] st = st \<and>
   (\<forall>s userData s'. username st \<noteq> [] \<and>
        users rt (username st) = Response s (Inr userData) \<and> ok s \<and>
        userRepos rt (username st) = Response s' (Inr []) \<and> ok s' \<longrightarrow>
      fetchReposAndYears rt st =
        st\<lparr>requests := requests st @ [GetUser (username st), GetRepos (username st)],
           repos := [], commitData := [], loading := False,
           error := ''No repositories found for this user'',
           years := yearRange (map_option (getFullYear rt) (created_at userData))
                      (getFullYear rt (clock rt (Suc (length (requests st))))),
           selectedYear := Some (getFullYear rt (clock rt (Suc (length (requests st))))),
           showChart := False\<rparr>)"
proof (intro conjI allI impI)
  show "fetchCommits rt year [] st = st" by (rule fetchCommits_empty)
next
  fix s userData s'
  assume "username st \<noteq> [] \<and>
        users rt (username st) = Response s (Inr userData) \<and> ok s \<and>
        userRepos rt (username st) = Response s' (Inr []) \<and> ok s'"
  then show "fetchReposAndYears rt st =
        st\<lparr>requests := requests st @ [GetUser (username st), GetRepos (username st)],
           repos := [], commitData := [], loading := False,
           error := ''No repositories found for this user'',
           years := yearRange (map_option (getFullYear rt) (created_at userData))
                      (getFullYear rt (clock rt (Suc (length (requests st))))),
           selectedYear := Some (getFullYear rt (clock rt (Suc (length (requests st))))),
           showChart := False\<rparr>"
    by (simp add: fetchReposAndYears_def Let_def)
qed

theorem empty_list_returns_at_once_witness:
  "username (initialState ''norepos'') \<noteq> [] \<and>
   users sampleRuntime (username (initialState ''norepos''))
     = Response 200 (Inr \<lparr>created_at = utcDate 2020 5 1 0 0 0\<rparr>) \<and>
   ok 200 \<and>
   userRepos sampleRuntime (username (initialState ''norepos'')) = Response 200 (Inr []) \<and>
   fetchCommits sampleRuntime 2026 [] (initialState ''norepos'') = initialState ''norepos'' \<and>
   fetchReposAndYears sampleRuntime (initialState ''norepos'') =
     (initialState ''norepos'')
       \<lparr>requests := requests (initialState ''norepos'') @
            [GetUser (username (initialState ''norepos'')), GetRepos (username (initialState ''norepos''))],
        repos := [], commitData := [], loading := False,
        error := ''No repositories found for this user'',
        years := yearRange (map_option (getFullYear sampleRuntime)
                    (created_at \<lparr>created_at = utcDate 2020 5 1 0 0 0\<rparr>))
                   (getFullYear sampleRuntime
                      (clock sampleRuntime (Suc (length (requests (initialState ''norepos'')))))),
        selectedYear := Some (getFullYear sampleRuntime
                      (clock sampleRuntime (Suc (length (requests (initialState ''norepos'')))))),
        showChart := False\<rparr>"
proof -
  have name: "username (initialState ''norepos'') = ''norepos''"
    by (simp add: initialState_def)
  have ne: "username (initialState ''norepos'') \<noteq> []"
    by (simp add: name)
  have u: "users sampleRuntime (username (initialState ''norepos''))
     = Response 200 (Inr \<lparr>created_at = utcDate 2020 5 1 0 0 0\<rparr>)"
    by (simp add: name sampleUsers_def)
  have k: "ok 200" by (simp add: ok_def)
  have r: "userRepos sampleRuntime (username (initialState ''norepos'')) = Response 200 (Inr [])"
    by (simp add: name sampleRepos_def)
  note empty = empty_list_returns_at_once[of sampleRuntime 2026 "initialState ''norepos''"]
  note search = empty[THEN conjunct2, THEN spec, THEN spec, THEN spec, THEN mp,
      OF conjI[OF ne conjI[OF u conjI[OF k conjI[OF r k]]]]]
  show ?thesis
    by (intro conjI) (fact ne u k r empty[THEN conjunct1] search)+
qed

theorem empty_list_no_buckets_and_error:
  "commitData (fetchCommits sampleRuntime 2026 [] (initialState ''norepos'')) = [] \<and>
   length (commitData (fetchCommits sampleRuntime 2026 [] (initialState ''norepos''))) \<noteq> 12 \<and>
   sampleRepos ''norepos'' = Response 200 (Inr []) \<and>
   commitData (fetchReposAndYears sampleRuntime (initialState ''norepos'')) = [] \<and>
   error (fetchReposAndYears sampleRuntime (initialState ''norepos''))
     = ''No repositories found for this user''"
  by (simp add: fetchCommits_empty initialState_def fetchReposAndYears_def Let_def
        sampleUsers_def sampleRepos_def ok_def)

section \<open>The date window of the query (C4)\<close>

text \<open>
  Claim C4, as the code has it. The window of a run starts at 1 January 00:00:00 of the
  target year. Its end is 31 December 23:59:59 of that year, except that, when the
  target year is the current year and that instant lies after now, the end is now: for
  the current year the upper bound never exceeds the current instant. For any other
  target year the end is 31 December 23:59:59 unchanged. Every commit request of the
  run carries this window.

  The claim as stated, that the bound is clamped whenever it lies in the future, fails
  for a target year after the current one: the comparison with now is made only under
  \<open>year === currentYear\<close>. In the sample, on 2 November 2026, a run for 2027 asks for
  commits until 31 December 2027.
\<close>

theorem window_clamped_in_current_year:
  assumes "customRepos \<noteq> []"
    and "now = clock rt (length (requests st))" and "currentYear = getFullYear rt now"
    and "queryWindow rt year now currentYear = Inr (since, until)"
  shows "newDate rt year 0 1 0 0 0 = Some since \<and>
     (\<exists>dec31. newDate rt year 11 31 23 59 59 = Some dec31 \<and>
        (year = currentYear \<and> now < dec31 \<longrightarrow> until = now) \<and>
        (year = currentYear \<longrightarrow> until \<le> now) \<and>
        (year \<noteq> currentYear \<or> dec31 \<le> now \<longrightarrow> until = dec31)) \<and>
     (\<forall>q\<in>set (drop (length (requests st)) (requests (fetchCommits rt year customRepos st))).
        \<exists>r p. q = GetCommits (username st) r since until p)"
proof (intro conjI)
  from assms(4) show "newDate rt year 0 1 0 0 0 = Some since"
    by (auto simp: queryWindow_def split: option.splits)
  from assms(4) show "\<exists>dec31. newDate rt year 11 31 23 59 59 = Some dec31 \<and>
        (year = currentYear \<and> now < dec31 \<longrightarrow> until = now) \<and>
        (year = currentYear \<longrightarrow> until \<le> now) \<and>
        (year \<noteq> currentYear \<or> dec31 \<le> now \<longrightarrow> until = dec31)"
    by (auto simp: queryWindow_def split: option.splits if_splits)
  from assms show "\<forall>q\<in>set (drop (length (requests st)) (requests (fetchCommits rt year customRepos st))).
        \<exists>r p. q = GetCommits (username st) r since until p"
    using fetchCommits_requests_window[of customRepos rt year st since until] by blast
qed

theorem window_clamped_in_current_year_witness:
  "[mkRepo ''gone''] \<noteq> [] \<and>
   1793577600000 = clock sampleRuntime (length (requests (initialState ''octocat''))) \<and>
   2026 = getFullYear sampleRuntime 1793577600000 \<and>
   queryWindow sampleRuntime 2026 1793577600000 2026 = Inr (1767225600000, 1793577600000) \<and>
   newDate sampleRuntime 2026 0 1 0 0 0 = Some 1767225600000 \<and>
   (\<exists>dec31. newDate sampleRuntime 2026 11 31 23 59 59 = Some dec31 \<and>
        ((2026::int) = 2026 \<and> 1793577600000 < dec31 \<longrightarrow> (1793577600000::int) = 1793577600000) \<and>
        ((2026::int) = 2026 \<longrightarrow> (1793577600000::int) \<le> 1793577600000) \<and>
        ((2026::int) \<noteq> 2026 \<or> dec31 \<le> 1793577600000 \<longrightarrow> 1793577600000 = dec31))"
proof -
  have ne: "[mkRepo ''gone''] \<noteq> []" by simp
  have now: "1793577600000 = clock sampleRuntime (length (requests (initialState ''octocat'')))"
    by (simp add: initialState_def)
  have cy: "2026 = getFullYear sampleRuntime 1793577600000"
    by (simp add: sample_years)
  have w: "queryWindow sampleRuntime 2026 1793577600000 2026 = Inr (1767225600000, 1793577600000)"
    using sample_window by (simp add: sample_years)
  note window = window_clamped_in_current_year[OF ne now cy w]
  show ?thesis
    by (intro conjI) (fact ne now cy w window[THEN conjunct1] window[THEN conjunct2, THEN conjunct1])+
qed

theorem future_year_not_clamped:
  "getFullYear sampleRuntime (clock sampleRuntime (length (requests (initialState ''octocat'')))) = 2026 \<and>
   newDate sampleRuntime 2027 11 31 23 59 59 = Some 1830297599000 \<and>
   clock sampleRuntime (length (requests (initialState ''octocat''))) < 1830297599000 \<and>
   requests (fetchCommits sampleRuntime 2027 [mkRepo ''gone''] (initialState ''octocat''))
     = [GetCommits ''octocat'' ''gone'' 1798761600000 1830297599000 1] \<and>
   clock sampleRuntime (length (requests (initialState ''octocat''))) \<noteq> 1830297599000"
proof -
  have st: "requests (initialState ''octocat'') = []" "username (initialState ''octocat'') = ''octocat''"
    by (simp_all add: initialState_def)
  have cy: "getFullYear sampleRuntime (clock sampleRuntime (length (requests (initialState ''octocat'')))) = 2026"
    by (simp add: st sample_years)
  have dec: "newDate sampleRuntime 2027 11 31 23 59 59 = Some 1830297599000"
    by (simp add: sample_dates)
  have now: "clock sampleRuntime (length (requests (initialState ''octocat''))) < 1830297599000"
    "clock sampleRuntime (length (requests (initialState ''octocat''))) \<noteq> 1830297599000"
    by (simp_all add: st)
  have w: "queryWindow sampleRuntime 2027 (clock sampleRuntime (length (requests (initialState ''octocat''))))
      (getFullYear sampleRuntime (clock sampleRuntime (length (requests (initialState ''octocat'')))))
     = Inr (1798761600000, 1830297599000)"
    using sample_window_2027 by (simp add: st)
  have run: "requests (fetchCommits sampleRuntime 2027 [mkRepo ''gone''] (initialState ''octocat''))
     = [GetCommits ''octocat'' ''gone'' 1798761600000 1830297599000 1]"
    using w by (simp add: fetchCommits_valid[OF _ w] Let_def st sample_gone)
  show ?thesis
    by (intro conjI) (fact cy dec now run)+
qed

section \<open>The page cap (C5)\<close>

text \<open>
  Claim C5. The pagination loop of a repository ends, having fetched at most 5 pages:
  entered at page 1, it sends the requests for the pages 1 to \<open>n\<close>, one after the other,
  for some \<open>n\<close> from 1 to 5, and nothing else. When no page holds more than 100
  commits, it adds at most 500 to the sum of the buckets. The truncation is silent: a
  full fifth page whose commits are all counted ends the loop normally, with no console
  line and no request for a sixth page. That the loop ends at all is the totality of
  \<open>pageLoop\<close>, established by its termination proof.
\<close>

theorem pagination_capped:
  "(\<exists>n. 1 \<le> n \<and> n \<le> 5 \<and>
      requests (snd (pageLoop rt user repo since until 1 a)) =
        requests a @ map (GetCommits user (name repo) since until) [1..<1 + n]) \<and>
   ((\<forall>p st cs. repoCommits rt user (name repo) since until p = Response st (Inr cs)
        \<longrightarrow> length cs \<le> 100) \<longrightarrow>
    totalCommits (monthlyCommits (snd (pageLoop rt user repo since until 1 a)))
      \<le> totalCommits (monthlyCommits a) + 500) \<and>
   (\<forall>st cs. repoCommits rt user (name repo) since until 5 = Response st (Inr cs) \<and> ok st \<and>
        fst (forEachCommit rt cs (monthlyCommits a)) = Normal \<longrightarrow>
      pageLoop rt user repo since until 5 a =
        (Normal, a\<lparr>requests := requests a @ [GetCommits user (name repo) since until 5],
                   monthlyCommits := snd (forEachCommit rt cs (monthlyCommits a))\<rparr>))"
proof (intro conjI impI allI)
  show "\<exists>n. 1 \<le> n \<and> n \<le> 5 \<and>
      requests (snd (pageLoop rt user repo since until 1 a)) =
        requests a @ map (GetCommits user (name repo) since until) [1..<1 + n]"
    using pageLoop_requests[of 1 rt user repo since until a] by simp
next
  assume "\<forall>p st cs. repoCommits rt user (name repo) since until p = Response st (Inr cs)
        \<longrightarrow> length cs \<le> 100"
  then have "totalCommits (monthlyCommits (snd (pageLoop rt user repo since until 1 a)))
      \<le> totalCommits (monthlyCommits a) + 100 * max 1 (6 - 1)"
    by (intro pageLoop_total_le) blast
  then show "totalCommits (monthlyCommits (snd (pageLoop rt user repo since until 1 a)))
      \<le> totalCommits (monthlyCommits a) + 500"
    by simp
next
  fix st cs
  assume h: "repoCommits rt user (name repo) since until 5 = Response st (Inr cs) \<and> ok st \<and>
        fst (forEachCommit rt cs (monthlyCommits a)) = Normal"
  then show "pageLoop rt user repo since until 5 a =
        (Normal, a\<lparr>requests := requests a @ [GetCommits user (name repo) since until 5],
                   monthlyCommits := snd (forEachCommit rt cs (monthlyCommits a))\<rparr>)"
    by (cases "forEachCommit rt cs (monthlyCommits a)") (simp add: pageLoop_ok Let_def)
qed

theorem pagination_capped_witness:
  "\<not> (\<exists>p st cs. repoCommits sampleRuntime ''octocat'' (name (mkRepo ''big'')) 1767225600000 1793577600000 p
        = Response st (Inr cs) \<and> 100 < length cs) \<and>
   (repoCommits sampleRuntime ''octocat'' (name (mkRepo ''big'')) 1767225600000 1793577600000 5
        = Response 200 (Inr (commitsIn 4 100)) \<and> ok 200 \<and>
    fst (forEachCommit sampleRuntime (commitsIn 4 100) (monthlyCommits emptyRun)) = Normal) \<and>
   (\<exists>n. 1 \<le> n \<and> n \<le> 5 \<and>
      requests (snd (pageLoop sampleRuntime ''octocat'' (mkRepo ''big'') 1767225600000 1793577600000 1 emptyRun)) =
        requests emptyRun @
        map (GetCommits ''octocat'' (name (mkRepo ''big'')) 1767225600000 1793577600000) [1..<1 + n]) \<and>
   totalCommits (monthlyCommits
       (snd (pageLoop sampleRuntime ''octocat'' (mkRepo ''big'') 1767225600000 1793577600000 1 emptyRun)))
     \<le> totalCommits (monthlyCommits emptyRun) + 500 \<and>
   pageLoop sampleRuntime ''octocat'' (mkRepo ''big'') 1767225600000 1793577600000 5 emptyRun =
     (Normal, emptyRun\<lparr>requests := requests emptyRun @
                 [GetCommits ''octocat'' (name (mkRepo ''big'')) 1767225600000 1793577600000 5],
               monthlyCommits := snd (forEachCommit sampleRuntime (commitsIn 4 100) (monthlyCommits emptyRun))\<rparr>)"
proof -
  have size: "\<forall>p st cs. repoCommits sampleRuntime ''octocat'' (name (mkRepo ''big'')) 1767225600000 1793577600000 p
        = Response st (Inr cs) \<longrightarrow> length cs \<le> 100"
    by (simp add: sampleCommits_def mkRepo_def)
  have page5: "repoCommits sampleRuntime ''octocat'' (name (mkRepo ''big'')) 1767225600000 1793577600000 5
        = Response 200 (Inr (commitsIn 4 100))"
    by (simp add: sampleCommits_def mkRepo_def)
  have ok: "ok 200" by (simp add: ok_def)
  have "\<forall>c\<in>set (commitsIn 4 100). \<exists>i<length (monthlyCommits emptyRun). monthIndex sampleRuntime c = Some i"
    using commitsIn_dated[OF sample_months(5)] by (auto simp: emptyRun_def)
  then have fe: "fst (forEachCommit sampleRuntime (commitsIn 4 100) (monthlyCommits emptyRun)) = Normal"
    by (simp add: forEachCommit_addCounts)
  have size': "\<not> (\<exists>p st cs. repoCommits sampleRuntime ''octocat'' (name (mkRepo ''big'')) 1767225600000 1793577600000 p
        = Response st (Inr cs) \<and> 100 < length cs)"
    using size by (auto simp: not_less)
  from size size' page5 ok fe
    pagination_capped[of sampleRuntime "''octocat''" "mkRepo ''big''" 1767225600000 1793577600000 emptyRun]
  show ?thesis by blast
qed

section \<open>The repository cap (C6)\<close>

text \<open>
  Claim C6. \<open>fetchCommits\<close> queries commits for the first 25 repositories of its
  list only, in the order of the list. A run on the whole list is the run on its first
  25 entries: what comes after index 24 changes nothing, neither a request nor the
  error message nor any other part of the state. When the dates of the year are valid,
  the run leaves no error message, and the requests it adds are, for each of the first
  25 repositories in turn, its pages 1 to \<open>n\<close> for some \<open>n\<close> from 1 to 5.
\<close>

theorem only_first_25_queried:
  "fetchCommits rt year customRepos st = fetchCommits rt year (take 25 customRepos) st \<and>
   (customRepos \<noteq> [] \<and>
    queryWindow rt year (clock rt (length (requests st)))
      (getFullYear rt (clock rt (length (requests st)))) = Inr (since, until) \<longrightarrow>
    error (fetchCommits rt year customRepos st) = [] \<and>
    (\<exists>ns. length ns = length (take 25 customRepos) \<and> (\<forall>n\<in>set ns. 1 \<le> n \<and> n \<le> 5) \<and>
       requests (fetchCommits rt year customRepos st) =
         requests st @
         concat (map2 (\<lambda>r n. map (GetCommits (username st) (name r) since until) [1..<1 + n])
                   (take 25 customRepos) ns)))"
proof (intro conjI impI)
  show "fetchCommits rt year customRepos st = fetchCommits rt year (take 25 customRepos) st"
    by (cases customRepos) (simp_all add: fetchCommits_def)
next
  let ?now = "clock rt (length (requests st))"
  let ?a0 = "\<lparr>requests = requests st, console = console st, monthlyCommits = freshBuckets rt year\<rparr>"
  assume h: "customRepos \<noteq> [] \<and> queryWindow rt year ?now (getFullYear rt ?now) = Inr (since, until)"
  then have ne: "customRepos \<noteq> []" and w: "queryWindow rt year ?now (getFullYear rt ?now) = Inr (since, until)"
    by simp_all
  note run = fetchCommits_valid[OF ne w]
  show "error (fetchCommits rt year customRepos st) = []"
    by (simp add: run Let_def)
  from forLoop_requests[OF w, of "take 25 customRepos" "username st" ?a0]
  show "\<exists>ns. length ns = length (take 25 customRepos) \<and> (\<forall>n\<in>set ns. 1 \<le> n \<and> n \<le> 5) \<and>
       requests (fetchCommits rt year customRepos st) =
         requests st @
         concat (map2 (\<lambda>r n. map (GetCommits (username st) (name r) since until) [1..<1 + n])
                   (take 25 customRepos) ns)"
    by (simp add: run Let_def)
qed

theorem only_first_25_queried_witness:
  "length (map mkRepo (map (\<lambda>i. ''repo'' @ showNat i) [0..<26])) = 26 \<and>
   map mkRepo (map (\<lambda>i. ''repo'' @ showNat i) [0..<26]) \<noteq> [] \<and>
   queryWindow sampleRuntime 2026 (clock sampleRuntime (length (requests (initialState ''octocat''))))
      (getFullYear sampleRuntime (clock sampleRuntime (length (requests (initialState ''octocat'')))))
     = Inr (1767225600000, 1793577600000) \<and>
   fetchCommits sampleRuntime 2026 (map mkRepo (map (\<lambda>i. ''repo'' @ showNat i) [0..<26])) (initialState ''octocat'')
     = fetchCommits sampleRuntime 2026 (take 25 (map mkRepo (map (\<lambda>i. ''repo'' @ showNat i) [0..<26])))
         (initialState ''octocat'') \<and>
   error (fetchCommits sampleRuntime 2026 (map mkRepo (map (\<lambda>i. ''repo'' @ showNat i) [0..<26]))
            (initialState ''octocat'')) = [] \<and>
   (\<exists>ns. length ns = length (take 25 (map mkRepo (map (\<lambda>i. ''repo'' @ showNat i) [0..<26]))) \<and>
      (\<forall>n\<in>set ns. 1 \<le> n \<and> n \<le> 5) \<and>
      requests (fetchCommits sampleRuntime 2026 (map mkRepo (map (\<lambda>i. ''repo'' @ showNat i) [0..<26]))
                  (initialState ''octocat'')) =
        requests (initialState ''octocat'') @
        concat (map2 (\<lambda>r n. map (GetCommits (username (initialState ''octocat'')) (name r)
                                1767225600000 1793577600000) [1..<1 + n])
                  (take 25 (map mkRepo (map (\<lambda>i. ''repo'' @ showNat i) [0..<26]))) ns))"
proof -
  let ?rs = "map mkRepo (map (\<lambda>i. ''repo'' @ showNat i) [0..<26])"
  have len: "length ?rs = 26" by simp
  have ne: "?rs \<noteq> []" by simp
  have w: "queryWindow sampleRuntime 2026 (clock sampleRuntime (length (requests (initialState ''octocat''))))
      (getFullYear sampleRuntime (clock sampleRuntime (length (requests (initialState ''octocat'')))))
     = Inr (1767225600000, 1793577600000)"
    using sample_window by (simp add: initialState_def)
  from only_first_25_queried[of sampleRuntime 2026 ?rs "initialState ''octocat''" 1767225600000 1793577600000]
    len ne w
  show ?thesis by blast
qed

section \<open>The sum of the buckets (C7)\<close>

text \<open>
  Claim C7. Throughout a run of \<open>fetchCommits\<close> and at its end, the sum of the twelve
  monthly counts is at most the number of repositories processed times the page cap 5
  times the page size 100, the page size being what the API answers to
  \<open>per_page=100\<close>: no page of a processed repository holds more than 100 commits.
  At the end: the sum of \<open>commitData\<close> is at most \<open>length (take 25 customRepos) * 5 * 100\<close>.
  Throughout: at every head of the loop over the repositories, when \<open>k\<close> of them have
  been processed (the state after the loop over the first \<open>k\<close>, by \<open>forLoop_append\<close>),
  the sum is at most \<open>k * 5 * 100\<close>, the invariant of that loop, and so at most the
  bound of the end. The run is one over a non-empty list: on an empty list
  \<open>fetchCommits\<close> returns at once and \<open>commitData\<close> keeps what an earlier run left.
\<close>

theorem monthly_sum_bounded:
  assumes size: "\<forall>r\<in>set (take 25 customRepos). \<forall>s u p st' cs.
        repoCommits rt (username st) (name r) s u p = Response st' (Inr cs) \<longrightarrow> length cs \<le> 100"
    and nonempty: "customRepos \<noteq> []"
  shows "totalCommits (commitData (fetchCommits rt year customRepos st))
           \<le> length (take 25 customRepos) * 5 * 100 \<and>
         (\<forall>k\<le>length (take 25 customRepos).
            totalCommits (monthlyCommits (snd (forLoop rt (username st) year now cy
                (take k (take 25 customRepos))
                \<lparr>requests = requests st, console = console st,
                 monthlyCommits = freshBuckets rt year\<rparr>)))
              \<le> k * 5 * 100)"
proof -
  let ?now = "clock rt (length (requests st))"
  let ?a0 = "\<lparr>requests = requests st, console = console st, monthlyCommits = freshBuckets rt year\<rparr>"
  have bound: "totalCommits (monthlyCommits (snd (forLoop rt (username st) year n c rs ?a0)))
                 \<le> length rs * 5 * 100"
    if "set rs \<subseteq> set (take 25 customRepos)" for n c rs
  proof -
    have "totalCommits (monthlyCommits (snd (forLoop rt (username st) year n c rs ?a0)))
            \<le> totalCommits (monthlyCommits ?a0) + length rs * 5 * 100"
      by (rule forLoop_total_le) (use size that in blast)
    then show ?thesis by simp
  qed
  have final: "totalCommits (commitData (fetchCommits rt year customRepos st))
           \<le> length (take 25 customRepos) * 5 * 100"
  proof (cases "queryWindow rt year ?now (getFullYear rt ?now)")
    case (Inl msg)
    with nonempty show ?thesis by (simp add: fetchCommits_invalid)
  next
    case (Inr w)
    obtain since until where "w = (since, until)" by (cases w)
    with Inr have "queryWindow rt year ?now (getFullYear rt ?now) = Inr (since, until)" by simp
    from fetchCommits_valid[OF nonempty this]
      bound[of "take 25 customRepos" ?now "getFullYear rt ?now"]
    show ?thesis by (simp add: Let_def)
  qed
  have during: "totalCommits (monthlyCommits (snd (forLoop rt (username st) year now cy
                (take k (take 25 customRepos)) ?a0))) \<le> k * 5 * 100"
    if "k \<le> length (take 25 customRepos)" for k
  proof -
    from that have "length (take k (take 25 customRepos)) = k" by simp
    with bound[of "take k (take 25 customRepos)" now cy] set_take_subset[of k "take 25 customRepos"]
    show ?thesis by simp
  qed
  from final during show ?thesis by blast
qed

theorem monthly_sum_bounded_witness:
  "map mkRepo [''mid'', ''gone'', ''big''] \<noteq> [] \<and>
   \<not> (\<exists>r s u p st' cs. r \<in> set (take 25 (map mkRepo [''mid'', ''gone'', ''big''])) \<and>
        repoCommits sampleRuntime (username (initialState ''octocat'')) (name r) s u p = Response st' (Inr cs) \<and>
        100 < length cs) \<and>
   totalCommits (commitData (fetchCommits sampleRuntime 2026 (map mkRepo [''mid'', ''gone'', ''big''])
       (initialState ''octocat''))) \<le> length (take 25 (map mkRepo [''mid'', ''gone'', ''big''])) * 5 * 100 \<and>
   2 \<le> length (take 25 (map mkRepo [''mid'', ''gone'', ''big''])) \<and>
   totalCommits (monthlyCommits (snd (forLoop sampleRuntime (username (initialState ''octocat'')) 2026
       1793577600000 2026 (take 2 (take 25 (map mkRepo [''mid'', ''gone'', ''big''])))
       \<lparr>requests = requests (initialState ''octocat''), console = console (initialState ''octocat''),
        monthlyCommits = freshBuckets sampleRuntime 2026\<rparr>))) \<le> 2 * 5 * 100"
proof -
  let ?rs = "map mkRepo [''mid'', ''gone'', ''big'']"
  have ne: "?rs \<noteq> []" by simp
  have size: "\<forall>r\<in>set (take 25 ?rs). \<forall>s u p st' cs.
        repoCommits sampleRuntime (username (initialState ''octocat'')) (name r) s u p = Response st' (Inr cs)
          \<longrightarrow> length cs \<le> 100"
    using sampleCommits_size by simp
  then have size': "\<not> (\<exists>r s u p st' cs. r \<in> set (take 25 ?rs) \<and>
        repoCommits sampleRuntime (username (initialState ''octocat'')) (name r) s u p = Response st' (Inr cs) \<and>
        100 < length cs)"
    by (meson not_less)
  have two: "2 \<le> length (take 25 ?rs)" by simp
  note bounded = monthly_sum_bounded[OF size ne, of 2026 1793577600000 2026]
  from bounded two ne size' show ?thesis by blast
qed

section \<open>The result of a run (C8)\<close>

text \<open>
  Claim C8. A run of \<open>fetchCommits\<close> over a non-empty list, for a year whose first and
  last day are valid dates, ends with \<open>commitData\<close> a sequence of exactly 12 buckets,
  bucket \<open>i\<close> (from 0 to 11) labelled with month \<open>i\<close> of the year, the chart flag set,
  no error message and the loading flag cleared. The counts are natural numbers by
  their type. The buckets are created for the run: what \<open>commitData\<close> held before has
  no influence. A bucket is zero when no page of the processed repositories holds a
  commit of its month. The boolean the caller derives from the buckets,
  \<open>commitData.every((d) => d.commits === 0)\<close>, tells whether all 12 buckets are zero,
  and decides between the message and the chart.
\<close>

theorem twelve_fresh_buckets:
  assumes "customRepos \<noteq> []"
    and "newDate rt year 0 1 0 0 0 \<noteq> None" and "newDate rt year 11 31 23 59 59 \<noteq> None"
  shows "length (commitData (fetchCommits rt year customRepos st)) = 12 \<and>
     map month (commitData (fetchCommits rt year customRepos st)) =
       map (\<lambda>i. monthShort rt (newDate rt year i 1 0 0 0)) [0..<12] \<and>
     showChart (fetchCommits rt year customRepos st) \<and>
     error (fetchCommits rt year customRepos st) = [] \<and>
     \<not> loading (fetchCommits rt year customRepos st) \<and>
     commitData (fetchCommits rt year customRepos (st\<lparr>commitData := old\<rparr>)) =
       commitData (fetchCommits rt year customRepos st) \<and>
     (\<forall>i<12. (\<forall>r\<in>set (take 25 customRepos). \<forall>s u p st' cs.
                  repoCommits rt (username st) (name r) s u p = Response st' (Inr cs) \<longrightarrow>
                  (\<forall>c\<in>set cs. monthIndex rt c \<noteq> Some i)) \<longrightarrow>
             commits (commitData (fetchCommits rt year customRepos st) ! i) = 0) \<and>
     (list_all (\<lambda>d. commits d = 0) (commitData (fetchCommits rt year customRepos st)) \<longleftrightarrow>
        (\<forall>i<12. commits (commitData (fetchCommits rt year customRepos st) ! i) = 0)) \<and>
     (years st \<noteq> [] \<longrightarrow>
        chartView (fetchCommits rt year customRepos st) =
          (if \<forall>i<12. commits (commitData (fetchCommits rt year customRepos st) ! i) = 0
           then NoCommitsFound
           else Chart (commitData (fetchCommits rt year customRepos st))
                  (totalCommits (commitData (fetchCommits rt year customRepos st)))
                  (map_option month (mostActive (commitData (fetchCommits rt year customRepos st))))))"
proof -
  let ?now = "clock rt (length (requests st))"
  let ?init = "\<lparr>requests = requests st, console = console st, monthlyCommits = freshBuckets rt year\<rparr>"
  let ?a = "snd (forLoop rt (username st) year ?now (getFullYear rt ?now) (take 25 customRepos) ?init)"
  let ?st' = "fetchCommits rt year customRepos st"
  obtain since until where w: "queryWindow rt year ?now (getFullYear rt ?now) = Inr (since, until)"
    using queryWindow_valid[OF assms(2,3)] by blast
  have run: "?st' = st\<lparr>requests := requests ?a, console := console ?a, commitData := monthlyCommits ?a,
            loading := False, error := [], showChart := True\<rparr>"
    using fetchCommits_valid[OF assms(1) w] by (simp add: Let_def)
  have cd: "commitData ?st' = monthlyCommits ?a" by (simp add: run)
  have months: "map month (commitData ?st') = map (\<lambda>i. monthShort rt (newDate rt year i 1 0 0 0)) [0..<12]"
    unfolding cd forLoop_months by (simp add: freshBuckets_def)
  have "length (map month (commitData ?st')) = 12"
    unfolding months by simp
  then have len: "length (commitData ?st') = 12" by simp
  have flags: "showChart ?st'" "error ?st' = []" "\<not> loading ?st'" "years ?st' = years st"
    by (simp_all add: run)
  have w': "queryWindow rt year (clock rt (length (requests (st\<lparr>commitData := old\<rparr>))))
              (getFullYear rt (clock rt (length (requests (st\<lparr>commitData := old\<rparr>))))) = Inr (since, until)"
    using w by simp
  have fresh: "commitData (fetchCommits rt year customRepos (st\<lparr>commitData := old\<rparr>)) = commitData ?st'"
    unfolding cd using fetchCommits_valid[OF assms(1) w'] by (simp add: Let_def)
  have zero: "commits (commitData ?st' ! i) = 0"
    if "i < 12"
      and "\<forall>r\<in>set (take 25 customRepos). \<forall>s u p st' cs.
             repoCommits rt (username st) (name r) s u p = Response st' (Inr cs) \<longrightarrow>
             (\<forall>c\<in>set cs. monthIndex rt c \<noteq> Some i)" for i
  proof -
    have "commits (monthlyCommits ?a ! i) = commits (monthlyCommits ?init ! i)"
      by (rule forLoop_untouched) (use that(2) in blast)
    with that(1) show ?thesis by (simp add: cd nth_freshBuckets)
  qed
  have every: "list_all (\<lambda>d. commits d = 0) (commitData ?st') \<longleftrightarrow>
        (\<forall>i<12. commits (commitData ?st' ! i) = 0)"
    using len by (rule list_all_buckets)
  have view: "chartView ?st' =
          (if \<forall>i<12. commits (commitData ?st' ! i) = 0 then NoCommitsFound
           else Chart (commitData ?st') (totalCommits (commitData ?st'))
                  (map_option month (mostActive (commitData ?st'))))"
    if "years st \<noteq> []"
    using that len flags every by (simp add: chartView_def)
  from len months flags(1,2,3) fresh zero every view show ?thesis by blast
qed

theorem twelve_fresh_buckets_witness:
  "map mkRepo [''mid'', ''gone''] \<noteq> [] \<and>
   newDate sampleRuntime 2026 0 1 0 0 0 \<noteq> None \<and>
   newDate sampleRuntime 2026 11 31 23 59 59 \<noteq> None \<and>
   (3::nat) < 12 \<and>
   \<not> (\<exists>r s u p st' cs c. r \<in> set (take 25 (map mkRepo [''mid'', ''gone''])) \<and>
        repoCommits sampleRuntime (username ((initialState ''octocat'')\<lparr>years := [2026, 2025]\<rparr>))
          (name r) s u p = Response st' (Inr cs) \<and>
        c \<in> set cs \<and> monthIndex sampleRuntime c = Some 3) \<and>
   years ((initialState ''octocat'')\<lparr>years := [2026, 2025]\<rparr>) \<noteq> [] \<and>
   length (commitData (fetchCommits sampleRuntime 2026 (map mkRepo [''mid'', ''gone''])
       ((initialState ''octocat'')\<lparr>years := [2026, 2025]\<rparr>))) = 12 \<and>
   showChart (fetchCommits sampleRuntime 2026 (map mkRepo [''mid'', ''gone''])
       ((initialState ''octocat'')\<lparr>years := [2026, 2025]\<rparr>)) \<and>
   error (fetchCommits sampleRuntime 2026 (map mkRepo [''mid'', ''gone''])
       ((initialState ''octocat'')\<lparr>years := [2026, 2025]\<rparr>)) = [] \<and>
   commitData (fetchCommits sampleRuntime 2026 (map mkRepo [''mid'', ''gone''])
       ((initialState ''octocat'')\<lparr>years := [2026, 2025], commitData := freshBuckets sampleRuntime 2025\<rparr>)) =
     commitData (fetchCommits sampleRuntime 2026 (map mkRepo [''mid'', ''gone''])
       ((initialState ''octocat'')\<lparr>years := [2026, 2025]\<rparr>)) \<and>
   commits (commitData (fetchCommits sampleRuntime 2026 (map mkRepo [''mid'', ''gone''])
       ((initialState ''octocat'')\<lparr>years := [2026, 2025]\<rparr>)) ! 3) = 0"
proof -
  let ?rs = "map mkRepo [''mid'', ''gone'']"
  let ?st = "(initialState ''octocat'')\<lparr>years := [2026, 2025]\<rparr>"
  have ne: "?rs \<noteq> []" by simp
  have d1: "newDate sampleRuntime 2026 0 1 0 0 0 \<noteq> None"
    and d2: "newDate sampleRuntime 2026 11 31 23 59 59 \<noteq> None"
    by (simp_all add: sample_dates del: One_nat_def)
  have i: "(3::nat) < 12" by simp
  have quiet: "\<forall>r\<in>set (take 25 ?rs). \<forall>s u p st' cs.
        repoCommits sampleRuntime (username ?st) (name r) s u p = Response st' (Inr cs) \<longrightarrow>
        (\<forall>c\<in>set cs. monthIndex sampleRuntime c \<noteq> Some 3)"
  proof (intro ballI allI impI)
    fix r s u p st' cs c
    assume "r \<in> set (take 25 ?rs)"
      and "repoCommits sampleRuntime (username ?st) (name r) s u p = Response st' (Inr cs)"
      and "c \<in> set cs"
    then show "monthIndex sampleRuntime c \<noteq> Some 3"
      using sampleQuiet[of "username ?st" "name r" s u p st' cs c] by (auto simp: mkRepo_def)
  qed
  then have quiet': "\<not> (\<exists>r s u p st' cs c. r \<in> set (take 25 ?rs) \<and>
        repoCommits sampleRuntime (username ?st) (name r) s u p = Response st' (Inr cs) \<and>
        c \<in> set cs \<and> monthIndex sampleRuntime c = Some 3)"
    by blast
  have ys: "years ?st \<noteq> []" by simp
  note result = twelve_fresh_buckets[OF ne d1 d2, of ?st "freshBuckets sampleRuntime 2025"]
  note len = result[THEN conjunct1]
  note rest = result[THEN conjunct2, THEN conjunct2]
  note chart = rest[THEN conjunct1]
  note err = rest[THEN conjunct2, THEN conjunct1]
  note rest' = rest[THEN conjunct2, THEN conjunct2, THEN conjunct2]
  note fresh = rest'[THEN conjunct1]
  note zero = rest'[THEN conjunct2, THEN conjunct1, THEN spec, THEN mp, OF i, THEN mp, OF quiet]
  have fresh': "commitData (fetchCommits sampleRuntime 2026 ?rs
       ((initialState ''octocat'')\<lparr>years := [2026, 2025], commitData := freshBuckets sampleRuntime 2025\<rparr>)) =
     commitData (fetchCommits sampleRuntime 2026 ?rs ?st)"
    using fresh by simp
  show ?thesis
    by (intro conjI) (fact ne d1 d2 i quiet' ys len chart err fresh' zero)+
qed

section \<open>Errors of the setup phase (C9)\<close>

text \<open>
  Claim C9. With a user name entered, a response to the profile request whose status
  is not in 200 to 299 ends \<open>fetchReposAndYears\<close> with one error message, chosen by
  the status: 404 gives \<open>User not found\<close>, 401 the message about the token, 403 the
  message about the rate limit, any other status the generic message with the
  status. The state then is the one of the reset with that message, the loading flag
  cleared, and the profile request as the only request sent. When the profile is
  fetched and the repository list answers with a status outside 200 to 299, the
  message is \<open>Failed to fetch repositories:\<close> with the status, and the two setup
  requests are the only ones sent. In both cases no commit request is sent, no chart
  is shown, and the five messages are pairwise different.
\<close>

theorem setup_errors_abort:
  assumes "username st \<noteq> []"
  shows
    "(\<forall>s b. users rt (username st) = Response s b \<and> \<not> ok s \<longrightarrow>
        fetchReposAndYears rt st =
          st\<lparr>requests := requests st @ [GetUser (username st)],
             repos := [], commitData := [], loading := False,
             error := (if s = 404 then ''User not found''
                       else if s = 401 then ''Invalid GitHub token. Check your configuration.''
                       else if s = 403 then ''API rate limit exceeded or authentication issue''
                       else ''GitHub API error: '' @ showNat s),
             years := [], showChart := False\<rparr>) \<and>
     (\<forall>s userData s' b'. users rt (username st) = Response s (Inr userData) \<and> ok s \<and>
        userRepos rt (username st) = Response s' b' \<and> \<not> ok s' \<longrightarrow>
        fetchReposAndYears rt st =
          st\<lparr>requests := requests st @ [GetUser (username st), GetRepos (username st)],
             repos := [], commitData := [], loading := False,
             error := ''Failed to fetch repositories: '' @ showNat s',
             years := yearRange (map_option (getFullYear rt) (created_at userData))
                        (getFullYear rt (clock rt (Suc (length (requests st))))),
             selectedYear := Some (getFullYear rt (clock rt (Suc (length (requests st))))),
             showChart := False\<rparr>) \<and>
     (\<forall>s s'. distinct [''User not found'', ''Invalid GitHub token. Check your configuration.'',
                  ''API rate limit exceeded or authentication issue'',
                  ''GitHub API error: '' @ showNat s,
                  ''Failed to fetch repositories: '' @ showNat s'])"
proof (intro conjI allI impI)
  fix s b
  assume "users rt (username st) = Response s b \<and> \<not> ok s"
  with assms show "fetchReposAndYears rt st =
          st\<lparr>requests := requests st @ [GetUser (username st)],
             repos := [], commitData := [], loading := False,
             error := (if s = 404 then ''User not found''
                       else if s = 401 then ''Invalid GitHub token. Check your configuration.''
                       else if s = 403 then ''API rate limit exceeded or authentication issue''
                       else ''GitHub API error: '' @ showNat s),
             years := [], showChart := False\<rparr>"
    by (simp add: fetchReposAndYears_def failWith_def userError_def Let_def)
next
  fix s userData s' b'
  assume "users rt (username st) = Response s (Inr userData) \<and> ok s \<and>
        userRepos rt (username st) = Response s' b' \<and> \<not> ok s'"
  with assms show "fetchReposAndYears rt st =
          st\<lparr>requests := requests st @ [GetUser (username st), GetRepos (username st)],
             repos := [], commitData := [], loading := False,
             error := ''Failed to fetch repositories: '' @ showNat s',
             years := yearRange (map_option (getFullYear rt) (created_at userData))
                        (getFullYear rt (clock rt (Suc (length (requests st))))),
             selectedYear := Some (getFullYear rt (clock rt (Suc (length (requests st))))),
             showChart := False\<rparr>"
    by (simp add: fetchReposAndYears_def failWith_def Let_def)
next
  fix s s' :: nat
  show "distinct [''User not found'', ''Invalid GitHub token. Check your configuration.'',
                  ''API rate limit exceeded or authentication issue'',
                  ''GitHub API error: '' @ showNat s,
                  ''Failed to fetch repositories: '' @ showNat s']"
    by (simp)
qed

theorem setup_errors_abort_witness:
  "username (initialState ''ghost'') \<noteq> [] \<and>
   users sampleRuntime (username (initialState ''ghost'')) = Response 404 (Inl ''not read'') \<and>
   \<not> ok 404 \<and>
   error (fetchReposAndYears sampleRuntime (initialState ''ghost'')) = ''User not found'' \<and>
   requests (fetchReposAndYears sampleRuntime (initialState ''ghost'')) = [GetUser ''ghost''] \<and>
   users sampleRuntime (username (initialState ''badtoken'')) = Response 401 (Inl ''not read'') \<and>
   \<not> ok 401 \<and>
   error (fetchReposAndYears sampleRuntime (initialState ''badtoken''))
     = ''Invalid GitHub token. Check your configuration.'' \<and>
   users sampleRuntime (username (initialState ''limited'')) = Response 403 (Inl ''not read'') \<and>
   \<not> ok 403 \<and>
   error (fetchReposAndYears sampleRuntime (initialState ''limited''))
     = ''API rate limit exceeded or authentication issue'' \<and>
   users sampleRuntime (username (initialState ''broken'')) = Response 500 (Inl ''not read'') \<and>
   \<not> ok 500 \<and>
   error (fetchReposAndYears sampleRuntime (initialState ''broken'')) = ''GitHub API error: 500'' \<and>
   users sampleRuntime (username (initialState ''repofail''))
     = Response 200 (Inr \<lparr>created_at = utcDate 2020 5 1 0 0 0\<rparr>) \<and>
   ok 200 \<and>
   userRepos sampleRuntime (username (initialState ''repofail'')) = Response 500 (Inl ''not read'') \<and>
   error (fetchReposAndYears sampleRuntime (initialState ''repofail''))
     = ''Failed to fetch repositories: 500'' \<and>
   requests (fetchReposAndYears sampleRuntime (initialState ''repofail''))
     = [GetUser ''repofail'', GetRepos ''repofail''] \<and>
   \<not> showChart (fetchReposAndYears sampleRuntime (initialState ''repofail''))"
proof -
  have name: "username (initialState u) = u" for u by (simp add: initialState_def)
  have reqs: "requests (initialState u) = []" for u by (simp add: initialState_def)
  have ne: "username (initialState ''ghost'') \<noteq> []" "username (initialState ''badtoken'') \<noteq> []"
    "username (initialState ''limited'') \<noteq> []" "username (initialState ''broken'') \<noteq> []"
    "username (initialState ''repofail'') \<noteq> []"
    by (simp_all add: name)
  have u: "users sampleRuntime (username (initialState ''ghost'')) = Response 404 (Inl ''not read'')"
    "users sampleRuntime (username (initialState ''badtoken'')) = Response 401 (Inl ''not read'')"
    "users sampleRuntime (username (initialState ''limited'')) = Response 403 (Inl ''not read'')"
    "users sampleRuntime (username (initialState ''broken'')) = Response 500 (Inl ''not read'')"
    "users sampleRuntime (username (initialState ''repofail''))
       = Response 200 (Inr \<lparr>created_at = utcDate 2020 5 1 0 0 0\<rparr>)"
    by (simp_all add: name sampleUsers_def)
  have r: "userRepos sampleRuntime (username (initialState ''repofail'')) = Response 500 (Inl ''not read'')"
    by (simp add: name sampleRepos_def)
  have k: "\<not> ok 404" "\<not> ok 401" "\<not> ok 403" "\<not> ok 500" "ok 200"
    by (simp_all add: ok_def)
  note ghost = setup_errors_abort[OF ne(1), of sampleRuntime, THEN conjunct1, THEN spec, THEN spec,
      THEN mp, OF conjI[OF u(1) k(1)]]
  note badtoken = setup_errors_abort[OF ne(2), of sampleRuntime, THEN conjunct1, THEN spec, THEN spec,
      THEN mp, OF conjI[OF u(2) k(2)]]
  note limited = setup_errors_abort[OF ne(3), of sampleRuntime, THEN conjunct1, THEN spec, THEN spec,
      THEN mp, OF conjI[OF u(3) k(3)]]
  note broken = setup_errors_abort[OF ne(4), of sampleRuntime, THEN conjunct1, THEN spec, THEN spec,
      THEN mp, OF conjI[OF u(4) k(4)]]
  note repofail = setup_errors_abort[OF ne(5), of sampleRuntime, THEN conjunct2, THEN conjunct1,
      THEN spec, THEN spec, THEN spec, THEN spec, THEN mp, OF conjI[OF u(5) conjI[OF k(5) conjI[OF r k(4)]]]]
  have five: "showNat 500 = ''500''"
    by (simp add: showNat.simps digit_def)
  have e: "error (fetchReposAndYears sampleRuntime (initialState ''ghost'')) = ''User not found''"
    "requests (fetchReposAndYears sampleRuntime (initialState ''ghost'')) = [GetUser ''ghost'']"
    "error (fetchReposAndYears sampleRuntime (initialState ''badtoken''))
       = ''Invalid GitHub token. Check your configuration.''"
    "error (fetchReposAndYears sampleRuntime (initialState ''limited''))
       = ''API rate limit exceeded or authentication issue''"
    "error (fetchReposAndYears sampleRuntime (initialState ''broken'')) = ''GitHub API error: 500''"
    "error (fetchReposAndYears sampleRuntime (initialState ''repofail''))
       = ''Failed to fetch repositories: 500''"
    "requests (fetchReposAndYears sampleRuntime (initialState ''repofail''))
       = [GetUser ''repofail'', GetRepos ''repofail'']"
    "\<not> showChart (fetchReposAndYears sampleRuntime (initialState ''repofail''))"
    by (simp_all add: ghost badtoken limited broken repofail name reqs five)
  show ?thesis
    by (intro conjI) (fact ne u r k e)+
qed

section \<open>The most active month (C10)\<close>

text \<open>
  Claim C10. Whenever the chart is shown, the month displayed as the most active one is
  the label of the earliest bucket, in the order of the sequence, whose count is the
  maximum of the counts: no bucket has a greater count, and every bucket before it has
  a strictly smaller one. The chart is shown with the buckets of \<open>commitData\<close>, which
  are then not all zero.
\<close>

theorem most_active_is_earliest_peak:
  assumes "chartView st = Chart cd n m"
  shows "cd = commitData st \<and> \<not> list_all (\<lambda>d. commits d = 0) cd \<and>
         (\<exists>i<length cd. m = Some (month (cd ! i)) \<and>
            (\<forall>j<length cd. commits (cd ! j) \<le> commits (cd ! i)) \<and>
            (\<forall>j<i. commits (cd ! j) < commits (cd ! i)))"
proof -
  from assms have shown: "cd = commitData st" "length (commitData st) > 0"
    "\<not> list_all (\<lambda>d. commits d = 0) cd" "m = map_option month (mostActive cd)"
    by (auto simp: chartView_def split: if_splits)
  then have "cd \<noteq> []" by auto
  from mostActive_earliest_peak[OF this] obtain i where
    "i < length cd" "mostActive cd = Some (cd ! i)"
    "\<forall>j<length cd. commits (cd ! j) \<le> commits (cd ! i)"
    "\<forall>j<i. commits (cd ! j) < commits (cd ! i)"
    by blast
  with shown show ?thesis by auto
qed

theorem most_active_is_earliest_peak_witness:
  "chartView sampleShown = Chart sampleData 22 (Some ''Feb'') \<and>
   (\<exists>i<length sampleData. Some ''Feb'' = Some (month (sampleData ! i)) \<and>
      (\<forall>j<length sampleData. commits (sampleData ! j) \<le> commits (sampleData ! i)) \<and>
      (\<forall>j<i. commits (sampleData ! j) < commits (sampleData ! i)))"
proof -
  have view: "chartView sampleShown = Chart sampleData 22 (Some ''Feb'')"
    by (simp add: chartView_def totalCommits_def mostActive_def sampleShown_def sampleData_def
          initialState_def)
  note peak = most_active_is_earliest_peak[OF view, THEN conjunct2, THEN conjunct2]
  show ?thesis
    by (intro conjI) (fact view peak)+
qed

end
